theory Spec2Isabelle
  imports Main "HOL-Library.Word"
begin

unbundle bit_operations_syntax

section \<open>The vector of collectc: data model\<close>

text \<open>
  The embedding follows \<^verbatim>\<open>src/vector.c\<close> on an LP64 platform: \<^verbatim>\<open>size_t\<close> and
  \<^verbatim>\<open>uintptr_t\<close> are 64-bit words whose arithmetic wraps around, \<^verbatim>\<open>CHAR_BIT\<close> is 8 and
  the allocation header of three \<^verbatim>\<open>size_t\<close> fields takes 24 bytes.

  The heap maps the base address of every live allocation to a block. A block records
  the number of bytes that were allocated, the header stored at its start (\<open>None\<close> as
  long as it has not been written) and the bytes that follow the header. A process
  abort is the result \<open>Inl Abort\<close>; a memory access that leaves the element bytes of a
  live block, which C leaves undefined or which overwrites the header, is the result
  \<open>Inl Fault\<close>. The copy out of a block in \<^verbatim>\<open>vector_slice\<close> may read the bytes of the
  header as well.
\<close>

type_synonym size_t = "64 word"
type_synonym vector_t = "64 word"
type_synonym byte = "8 word"

record vector_header =
  capacity :: size_t
  len :: size_t
  elementSize :: size_t

record block =
  bsize :: nat
  header :: "vector_header option"
  elems :: "byte list"

type_synonym heap = "size_t \<rightharpoonup> block"

datatype error = Abort | Fault

type_synonym 'a prog = "heap \<Rightarrow> error + ('a \<times> heap)"

text \<open>
  A pointer argument to element records that the vector copies from: the null pointer,
  a buffer owned by the caller that holds the given bytes, or the first element byte of
  the block of another vector (\<^verbatim>\<open>otherBase + sizeof(*otherHeader)\<close>).
\<close>

datatype pointer = Null | Buffer "byte list" | Elems size_t

text \<open>
  The pointer argument that \<^verbatim>\<open>vector_slice\<close> copies to: the null pointer, storage owned by
  the caller outside every vector, holding the given bytes, or an address inside the
  element bytes of a block, given with the base of that block, as \<^verbatim>\<open>vector_at_mut\<close>
  returns it.
\<close>

datatype destination = OutNull | OutBuffer "byte list" | OutElement size_t size_t

definition NULL :: size_t where
  "NULL = 0"

definition sizeof_header :: size_t where
  "sizeof_header = 24"

definition MAX_ZERO_CAPACITY_ELEMENT_SIZE :: size_t where
  "MAX_ZERO_CAPACITY_ELEMENT_SIZE = push_bit (8 * 8 - 1) 1"

subsection \<open>Sequencing, abort and memory primitives\<close>

definition retp :: "'a \<Rightarrow> 'a prog" where
  "retp x = (\<lambda>h. Inr (x, h))"

definition bindp :: "'a prog \<Rightarrow> ('a \<Rightarrow> 'b prog) \<Rightarrow> 'b prog" where
  "bindp m f = (\<lambda>h. case m h of Inl e \<Rightarrow> Inl e | Inr (x, h') \<Rightarrow> f x h')"

definition abortp :: "'a prog" where
  "abortp = (\<lambda>h. Inl Abort)"

text \<open>Reading a header field through a header pointer, as in \<^verbatim>\<open>header->length\<close>.\<close>

definition load_header :: "size_t \<Rightarrow> vector_header prog" where
  "load_header p = (\<lambda>h. case h p of None \<Rightarrow> Inl Fault
     | Some b \<Rightarrow> (case header b of None \<Rightarrow> Inl Fault | Some hdr \<Rightarrow> Inr (hdr, h)))"

definition get_capacity :: "size_t \<Rightarrow> size_t prog" where
  "get_capacity p = bindp (load_header p) (\<lambda>hdr. retp (capacity hdr))"

definition get_len :: "size_t \<Rightarrow> size_t prog" where
  "get_len p = bindp (load_header p) (\<lambda>hdr. retp (len hdr))"

definition get_elementSize :: "size_t \<Rightarrow> size_t prog" where
  "get_elementSize p = bindp (load_header p) (\<lambda>hdr. retp (elementSize hdr))"

text \<open>Writing the three fields of a header; the block must have room for a header.\<close>

definition store_header :: "size_t \<Rightarrow> vector_header \<Rightarrow> unit prog" where
  "store_header p hdr = (\<lambda>h. case h p of None \<Rightarrow> Inl Fault
     | Some b \<Rightarrow> if bsize b < unat sizeof_header then Inl Fault
                 else Inr ((), h(p \<mapsto> b\<lparr>header := Some hdr\<rparr>)))"

text \<open>Writing \<^verbatim>\<open>header->length\<close> alone.\<close>

definition set_len :: "size_t \<Rightarrow> size_t \<Rightarrow> unit prog" where
  "set_len p v = (\<lambda>h. case h p of None \<Rightarrow> Inl Fault
     | Some b \<Rightarrow> (case header b of None \<Rightarrow> Inl Fault
         | Some hdr \<Rightarrow> Inr ((), h(p \<mapsto> b\<lparr>header := Some (hdr\<lparr>len := v\<rparr>)\<rparr>))))"

text \<open>
  \<^verbatim>\<open>malloc\<close> and \<^verbatim>\<open>realloc\<close>. The allocator is the environment: the address it returns
  (\<open>NULL\<close> when it fails) and the indeterminate contents of fresh memory are the
  parameters \<open>newBase\<close> and \<open>junk\<close>. \<^verbatim>\<open>realloc\<close> keeps the old contents up to the smaller
  of the two sizes and releases the old block.
\<close>

definition resize :: "nat \<Rightarrow> byte list \<Rightarrow> (nat \<Rightarrow> byte) \<Rightarrow> byte list" where
  "resize n old junk = take n old @ map junk [length old..<n]"

definition malloc :: "size_t \<Rightarrow> size_t \<Rightarrow> (nat \<Rightarrow> byte) \<Rightarrow> size_t prog" where
  "malloc n newBase junk = (\<lambda>h.
     if newBase = NULL then Inr (NULL, h)
     else Inr (newBase, h(newBase \<mapsto>
       \<lparr>bsize = unat n, header = None,
        elems = resize (unat n - unat sizeof_header) [] junk\<rparr>)))"

definition realloc :: "size_t \<Rightarrow> size_t \<Rightarrow> size_t \<Rightarrow> (nat \<Rightarrow> byte) \<Rightarrow> size_t prog" where
  "realloc oldBase n newBase junk = (\<lambda>h.
     if oldBase = NULL then malloc n newBase junk h
     else (case h oldBase of None \<Rightarrow> Inl Fault
       | Some b \<Rightarrow>
           if newBase = NULL then Inr (NULL, h)
           else Inr (newBase, (h(oldBase := None))(newBase \<mapsto>
             \<lparr>bsize = unat n,
              header = (if unat n < unat sizeof_header then None else header b),
              elems = resize (unat n - unat sizeof_header) (elems b) junk\<rparr>))))"

definition free :: "size_t \<Rightarrow> unit prog" where
  "free p = (\<lambda>h. if p = NULL then Inr ((), h)
     else (case h p of None \<Rightarrow> Inl Fault | Some b \<Rightarrow> Inr ((), h(p := None))))"

text \<open>
  \<^verbatim>\<open>memmove\<close> inside the element bytes of the block at \<open>base\<close>. The pointers \<open>dst\<close> and
  \<open>src\<close> were derived from \<open>base\<close>; their offsets into the element bytes are taken modulo
  the address space, as the pointer arithmetic that produced them. Copying no byte
  touches no memory. Leaving the block is a fault.
\<close>

definition offset_in :: "size_t \<Rightarrow> size_t \<Rightarrow> nat" where
  "offset_in base p = unat (p - (base + sizeof_header))"

definition memmove :: "size_t \<Rightarrow> size_t \<Rightarrow> size_t \<Rightarrow> size_t \<Rightarrow> unit prog" where
  "memmove base dst src n = (\<lambda>h.
     if n = 0 then Inr ((), h)
     else (case h base of None \<Rightarrow> Inl Fault
       | Some b \<Rightarrow>
           let d = offset_in base dst; s = offset_in base src; k = unat n in
           if length (elems b) < d + k \<or> length (elems b) < s + k then Inl Fault
           else Inr ((), h(base \<mapsto> b\<lparr>elems :=
                  take d (elems b) @ take k (drop s (elems b)) @ drop (d + k) (elems b)\<rparr>))))"

text \<open>
  \<^verbatim>\<open>memcpy\<close> into the element bytes of the block at \<open>base\<close>, from a pointer argument.
  Source and destination must not overlap.
\<close>

definition memcpy_in :: "size_t \<Rightarrow> size_t \<Rightarrow> pointer \<Rightarrow> size_t \<Rightarrow> unit prog" where
  "memcpy_in base dst src n = (\<lambda>h.
     if n = 0 then Inr ((), h)
     else (case h base of None \<Rightarrow> Inl Fault
       | Some b \<Rightarrow>
           let d = offset_in base dst; k = unat n in
           if length (elems b) < d + k then Inl Fault
           else (case src of
               Null \<Rightarrow> Inl Fault
             | Buffer bs \<Rightarrow>
                 if length bs < k then Inl Fault
                 else Inr ((), h(base \<mapsto> b\<lparr>elems :=
                        take d (elems b) @ take k bs @ drop (d + k) (elems b)\<rparr>))
             | Elems sb \<Rightarrow> (case h sb of None \<Rightarrow> Inl Fault
                 | Some s \<Rightarrow>
                     if length (elems s) < k \<or> (sb = base \<and> d < k) then Inl Fault
                     else Inr ((), h(base \<mapsto> b\<lparr>elems :=
                            take d (elems b) @ take k (elems s) @ drop (d + k) (elems b)\<rparr>))))))"

text \<open>
  The bytes of a header as they lie in memory: three 64-bit fields, least significant
  byte first.
\<close>

definition bytes_of :: "size_t \<Rightarrow> byte list" where
  "bytes_of w = map (\<lambda>i. ucast (drop_bit (8 * i) w)) [0..<8]"

definition header_bytes :: "vector_header \<Rightarrow> byte list" where
  "header_bytes hdr = bytes_of (capacity hdr) @ bytes_of (len hdr) @ bytes_of (elementSize hdr)"

text \<open>
  \<^verbatim>\<open>memcpy\<close> out of the block at \<open>base\<close> to a destination. The source address \<open>src\<close> was
  derived from \<open>base\<close> and may lie anywhere in the block, the header included. The
  result is the destination after the copy; a destination inside a block changes the
  heap. Reading or writing outside a block, and overlapping source and destination,
  are faults.
\<close>

definition memcpy_out :: "destination \<Rightarrow> size_t \<Rightarrow> size_t \<Rightarrow> size_t \<Rightarrow> destination prog" where
  "memcpy_out dst base src n = (\<lambda>h.
     if n = 0 then Inr (dst, h)
     else (case h base of None \<Rightarrow> Inl Fault
       | Some b \<Rightarrow> (case header b of None \<Rightarrow> Inl Fault
           | Some hdr \<Rightarrow>
               let bytes = header_bytes hdr @ elems b; s = unat (src - base); k = unat n in
               if length bytes < s + k then Inl Fault
               else
                 let data = take k (drop s bytes) in
                 (case dst of
                     OutNull \<Rightarrow> Inl Fault
                   | OutBuffer out \<Rightarrow>
                       if length out < k then Inl Fault
                       else Inr (OutBuffer (data @ drop k out), h)
                   | OutElement db da \<Rightarrow> (case h db of None \<Rightarrow> Inl Fault
                       | Some t \<Rightarrow>
                           let d = offset_in db da in
                           if length (elems t) < d + k
                              \<or> (db = base \<and> s < unat sizeof_header + d + k
                                  \<and> unat sizeof_header + d < s + k)
                           then Inl Fault
                           else Inr (dst, h(db \<mapsto> t\<lparr>elems :=
                                  take d (elems t) @ data @ drop (d + k) (elems t)\<rparr>)))))))"

section \<open>The operations of vector.c\<close>

definition vector_base :: "vector_t \<Rightarrow> size_t" where
  "vector_base vec = (let isZeroCapacity = (vec AND 1 \<noteq> 0) in
     if isZeroCapacity then NULL else vec)"

definition vector_at_unchecked :: "vector_t \<Rightarrow> size_t \<Rightarrow> size_t prog" where
  "vector_at_unchecked vec index =
     (let base = vector_base vec in
      bindp (get_elementSize base) (\<lambda>es.
      retp (base + sizeof_header + index * es)))"

definition vector_new :: "size_t \<Rightarrow> size_t \<Rightarrow> size_t \<Rightarrow> (nat \<Rightarrow> byte) \<Rightarrow> vector_t prog" where
  "vector_new initialCapacity elementSize' newBase junk =
     (let isZeroCapacity =
        (initialCapacity = 0 \<and> elementSize' \<le> MAX_ZERO_CAPACITY_ELEMENT_SIZE) in
      if isZeroCapacity then retp (push_bit 1 elementSize' OR 1)
      else
        bindp (malloc (sizeof_header + initialCapacity * elementSize') newBase junk) (\<lambda>base.
        if base = NULL then abortp
        else
          bindp (store_header base
            \<lparr>capacity = initialCapacity, len = 0, elementSize = elementSize'\<rparr>) (\<lambda>_.
          retp base)))"

definition vector_len :: "vector_t \<Rightarrow> size_t prog" where
  "vector_len vec =
     (let header = vector_base vec in
      if header = NULL then retp 0 else get_len header)"

definition vector_capacity :: "vector_t \<Rightarrow> size_t prog" where
  "vector_capacity vec =
     (let header = vector_base vec in
      if header = NULL then retp 0 else get_capacity header)"

definition vector_element_size :: "vector_t \<Rightarrow> size_t prog" where
  "vector_element_size vec =
     (let header = vector_base vec in
      if header = NULL then retp (drop_bit 1 vec) else get_elementSize header)"

definition vector_is_empty :: "vector_t \<Rightarrow> bool prog" where
  "vector_is_empty vec = bindp (vector_len vec) (\<lambda>n. retp (n = 0))"

definition vector_reserve :: "vector_t \<Rightarrow> size_t \<Rightarrow> size_t \<Rightarrow> (nat \<Rightarrow> byte) \<Rightarrow> vector_t prog" where
  "vector_reserve vec extraCapacity newBase junk =
     bindp (vector_len vec) (\<lambda>length'.
     bindp (vector_capacity vec) (\<lambda>oldCapacity.
     if length' + extraCapacity \<le> oldCapacity then retp vec
     else
       bindp (vector_element_size vec) (\<lambda>elementSize'.
       let newCapacity = oldCapacity + (oldCapacity div 2 * 3) + extraCapacity;
           oldBase = vector_base vec in
       bindp (realloc oldBase (sizeof_header + newCapacity * elementSize') newBase junk)
         (\<lambda>newBase'.
       if newBase' = NULL then abortp
       else
         bindp (store_header newBase'
           \<lparr>capacity = newCapacity, len = length', elementSize = elementSize'\<rparr>) (\<lambda>_.
         retp newBase')))))"

definition vector_insert ::
  "vector_t \<Rightarrow> size_t \<Rightarrow> pointer \<Rightarrow> size_t \<Rightarrow> size_t \<Rightarrow> (nat \<Rightarrow> byte) \<Rightarrow> vector_t prog" where
  "vector_insert vec index elements count newBase junk =
     bindp (vector_reserve vec count newBase junk) (\<lambda>vec'.
     let header = vector_base vec' in
     if header = NULL then abortp
     else
       bindp (get_len header) (\<lambda>length'.
       if index > length' then abortp
       else
         bindp (vector_at_unchecked vec' index) (\<lambda>at.
         bindp (if index < length' then
                  bindp (vector_at_unchecked vec' (index + count)) (\<lambda>to.
                  bindp (get_elementSize header) (\<lambda>es.
                  memmove header to at ((length' - 1 - count) * es)))
                else retp ()) (\<lambda>_.
         bindp (get_elementSize header) (\<lambda>es.
         bindp (memcpy_in header at elements (count * es)) (\<lambda>_.
         bindp (get_len header) (\<lambda>length2.
         bindp (set_len header (length2 + count)) (\<lambda>_.
         retp vec'))))))))"

definition vector_push ::
  "vector_t \<Rightarrow> pointer \<Rightarrow> size_t \<Rightarrow> size_t \<Rightarrow> (nat \<Rightarrow> byte) \<Rightarrow> vector_t prog" where
  "vector_push vec elements count newBase junk =
     bindp (vector_len vec) (\<lambda>length'.
     vector_insert vec length' elements count newBase junk)"

definition vector_slice ::
  "vector_t \<Rightarrow> size_t \<Rightarrow> destination \<Rightarrow> size_t \<Rightarrow> destination prog" where
  "vector_slice vec index slice' count =
     (let header = vector_base vec in
      if header = NULL then abortp
      else
        bindp (get_len header) (\<lambda>length'.
        if index + count > length' then abortp
        else
          bindp (vector_at_unchecked vec index) (\<lambda>from.
          bindp (get_elementSize header) (\<lambda>es.
          memcpy_out slice' header from (count * es)))))"

definition vector_extend ::
  "vector_t \<Rightarrow> vector_t \<Rightarrow> size_t \<Rightarrow> (nat \<Rightarrow> byte) \<Rightarrow> vector_t prog" where
  "vector_extend vec other newBase junk =
     bindp (vector_element_size vec) (\<lambda>es.
     bindp (vector_element_size other) (\<lambda>es'.
     if es \<noteq> es' then abortp
     else
       let otherBase = vector_base other in
       if otherBase \<noteq> NULL then
         bindp (get_len otherBase) (\<lambda>otherLength.
         vector_push vec (Elems otherBase) otherLength newBase junk)
       else retp vec))"

definition vector_remove :: "vector_t \<Rightarrow> size_t \<Rightarrow> size_t \<Rightarrow> unit prog" where
  "vector_remove vec index count =
     (let header = vector_base vec in
      if header = NULL then abortp
      else
        bindp (vector_len vec) (\<lambda>length'.
        if index + count > length' then abortp
        else
          bindp (vector_at_unchecked vec (index + count)) (\<lambda>from.
          bindp (vector_at_unchecked vec index) (\<lambda>to.
          bindp (get_len header) (\<lambda>length1.
          bindp (get_elementSize header) (\<lambda>es.
          bindp (memmove header to from ((length1 - index - count) * es)) (\<lambda>_.
          bindp (get_len header) (\<lambda>length2.
          set_len header (length2 - count)))))))))"

definition vector_at_mut :: "vector_t \<Rightarrow> size_t \<Rightarrow> size_t prog" where
  "vector_at_mut vec index =
     bindp (vector_len vec) (\<lambda>length'.
     if index < length' then vector_at_unchecked vec index else retp NULL)"

definition vector_at :: "vector_t \<Rightarrow> size_t \<Rightarrow> size_t prog" where
  "vector_at vec index = vector_at_mut vec index"

definition vector_first :: "vector_t \<Rightarrow> size_t prog" where
  "vector_first vec = vector_at vec 0"

definition vector_last :: "vector_t \<Rightarrow> size_t prog" where
  "vector_last vec =
     bindp (vector_len vec) (\<lambda>length'.
     if length' > 0 then vector_at_unchecked vec (length' - 1) else retp NULL)"

definition vector_clear :: "vector_t \<Rightarrow> unit prog" where
  "vector_clear vec =
     (let header = vector_base vec in
      if header \<noteq> NULL then set_len header 0 else retp ())"

definition vector_delete :: "vector_t \<Rightarrow> unit prog" where
  "vector_delete vec = free (vector_base vec)"

section \<open>Specification vocabulary\<close>

text \<open>
  A program leaves the heap as it found it: whenever it returns, the heap it returns
  is the heap it was given.
\<close>

definition frame :: "'a prog \<Rightarrow> heap \<Rightarrow> bool" where
  "frame m h = (case m h of Inl e \<Rightarrow> True | Inr (x, h') \<Rightarrow> h' = h)"

text \<open>
  The sequence a vector holds: its first \<open>len\<close> element records, each \<open>elementSize\<close>
  bytes, packed in index order at the start of the element bytes. The tagged-empty
  form holds the empty sequence.
\<close>

fun elements_of :: "nat \<Rightarrow> nat \<Rightarrow> byte list \<Rightarrow> byte list list" where
  "elements_of es 0 bs = []"
| "elements_of es (Suc n) bs = take es bs # elements_of es n (drop es bs)"

definition contents :: "heap \<Rightarrow> vector_t \<Rightarrow> byte list list" where
  "contents h vec =
     (if vector_base vec = NULL then []
      else (case h (vector_base vec) of None \<Rightarrow> []
        | Some b \<Rightarrow> (case header b of None \<Rightarrow> []
            | Some hdr \<Rightarrow> elements_of (unat (elementSize hdr)) (unat (len hdr)) (elems b))))"

text \<open>
  A valid handle is the tagged-empty form, or the address of a live block whose header
  has been written, with \<open>len \<le> capacity\<close>, whose element bytes are
  \<open>capacity * elementSize\<close> many and which lies inside the address space.
\<close>

definition valid_vector :: "heap \<Rightarrow> vector_t \<Rightarrow> bool" where
  "valid_vector h vec =
     (if vec AND 1 \<noteq> 0 then True
      else vec \<noteq> NULL \<and> (case h vec of None \<Rightarrow> False
        | Some b \<Rightarrow> (case header b of None \<Rightarrow> False
            | Some hdr \<Rightarrow>
                len hdr \<le> capacity hdr
              \<and> length (elems b) = unat (capacity hdr) * unat (elementSize hdr)
              \<and> bsize b = unat sizeof_header + length (elems b)
              \<and> unat vec + bsize b < 2 ^ 64)))"


text \<open>The value a program returns, when it returns.\<close>

definition value_of :: "'a prog \<Rightarrow> heap \<Rightarrow> 'a option" where
  "value_of m h = (case m h of Inl e \<Rightarrow> None | Inr (x, h') \<Rightarrow> Some x)"

text \<open>The bytes a pointer argument points at.\<close>

definition source_bytes :: "heap \<Rightarrow> pointer \<Rightarrow> byte list" where
  "source_bytes h p = (case p of Null \<Rightarrow> [] | Buffer bs \<Rightarrow> bs
     | Elems sb \<Rightarrow> (case h sb of None \<Rightarrow> [] | Some s \<Rightarrow> elems s))"

text \<open>
  What a successful allocation returns: a non-null address aligned to an even
  boundary (the static assertion of the source), either the old block extended in
  place or an address that is not live.
\<close>

definition alloc_ok :: "heap \<Rightarrow> size_t \<Rightarrow> size_t \<Rightarrow> bool" where
  "alloc_ok h oldBase newBase =
     (newBase \<noteq> NULL \<and> newBase AND 1 = 0 \<and> (newBase = oldBase \<or> h newBase = None))"

text \<open>
  The growth formula in the words of the specification:
  \<open>capacity + floor (capacity * 1.5) + extraCapacity\<close>.
\<close>

definition spec_newCapacity :: "nat \<Rightarrow> nat \<Rightarrow> nat" where
  "spec_newCapacity cap extraCapacity = cap + (cap * 3) div 2 + extraCapacity"

text \<open>
  Heaps for the examples: one block at address 16 whose header and element bytes are
  given.
\<close>

definition heap_with :: "size_t \<Rightarrow> size_t \<Rightarrow> size_t \<Rightarrow> byte list \<Rightarrow> heap" where
  "heap_with cap n es bs =
     Map.empty(16 \<mapsto> \<lparr>bsize = 24 + length bs,
        header = Some \<lparr>capacity = cap, len = n, elementSize = es\<rparr>, elems = bs\<rparr>)"

definition block_of :: "size_t \<Rightarrow> size_t \<Rightarrow> size_t \<Rightarrow> byte list \<Rightarrow> block" where
  "block_of cap n es bs =
     \<lparr>bsize = 24 + length bs,
      header = Some \<lparr>capacity = cap, len = n, elementSize = es\<rparr>, elems = bs\<rparr>"

section \<open>Properties\<close>

subsection \<open>Evaluating the operations on concrete heaps\<close>

lemmas prims = bindp_def retp_def abortp_def load_header_def get_len_def get_capacity_def
  get_elementSize_def store_header_def set_len_def malloc_def realloc_def memmove_def
  memcpy_in_def memcpy_out_def offset_in_def resize_def NULL_def sizeof_header_def Let_def
  vector_base_def vector_at_unchecked_def vector_len_def vector_capacity_def
  vector_element_size_def

lemma elements_of_numeral:
  "elements_of es (numeral k) bs = take es bs # elements_of es (pred_numeral k) (drop es bs)"
  by (simp add: numeral_eq_Suc)

lemma elements_of_1: "elements_of es 1 bs = [take es bs]"
  by simp

subsection \<open>Read-only operations\<close>

lemma frame_load: "frame (load_header p) h"
  by (simp add: frame_def load_header_def split: option.splits)

lemma frame_retp: "frame (retp x) h"
  by (simp add: frame_def retp_def)

lemma frame_abortp: "frame abortp h"
  by (simp add: frame_def abortp_def)

lemma frame_bindp:
  assumes "frame m h" and "\<And>x. frame (f x) h"
  shows "frame (bindp m f) h"
proof (cases "m h")
  case (Inl e)
  then show ?thesis by (simp add: frame_def bindp_def)
next
  case (Inr r)
  obtain x h' where r: "r = (x, h')" by (cases r)
  with Inr assms(1) have "h' = h" by (simp add: frame_def)
  with Inr r have "bindp m f h = f x h" by (simp add: bindp_def)
  with assms(2) [of x] show ?thesis by (simp add: frame_def)
qed

lemma frame_if: "frame a h \<Longrightarrow> frame b h \<Longrightarrow> frame (if c then a else b) h"
  by simp

lemma frame_memcpy_out_buffer: "frame (memcpy_out (OutBuffer out) base src n) h"
  by (simp add: frame_def memcpy_out_def Let_def split: option.splits)

lemma frame_memcpy_out_null: "frame (memcpy_out OutNull base src n) h"
  by (simp add: frame_def memcpy_out_def Let_def split: option.splits)

text \<open>
  Claim C10, as stated: the read-only operations, \<^verbatim>\<open>vector_slice\<close> among them, never
  modify the stored element bytes of a vector. \<^verbatim>\<open>vector_slice\<close> copies to the pointer it
  is given. With one-byte elements \<open>[1, 2, 3, 4]\<close> at address 16,
  \<^verbatim>\<open>vector_slice(v, 0, vector_at_mut(v, 2), 2)\<close> copies the elements 0 and 1 over the
  elements 2 and 3, which do not overlap them, and the vector then holds
  \<open>[1, 2, 1, 2]\<close>.
\<close>

theorem vector_slice_into_own_storage:
  "vector_at_mut 16 2 (heap_with 5 4 1 [1, 2, 3, 4, 0]) = Inr (42, heap_with 5 4 1 [1, 2, 3, 4, 0])
   \<and> contents (heap_with 5 4 1 [1, 2, 3, 4, 0]) 16 = [[1], [2], [3], [4]]
   \<and> vector_slice 16 0 (OutElement 16 42) 2 (heap_with 5 4 1 [1, 2, 3, 4, 0])
       = Inr (OutElement 16 42, heap_with 5 4 1 [1, 2, 1, 2, 0])
   \<and> contents (heap_with 5 4 1 [1, 2, 1, 2, 0]) 16 = [[1], [2], [1], [2]]
   \<and> \<not> frame (vector_slice 16 0 (OutElement 16 42) 2) (heap_with 5 4 1 [1, 2, 3, 4, 0])"
proof -
  let ?H = "heap_with 5 4 1 [1, 2, 3, 4, 0]" and ?H' = "heap_with 5 4 1 [1, 2, 1, 2, 0]"
  have a: "vector_at_mut 16 2 ?H = Inr (42, ?H)"
    by (simp add: vector_at_mut_def prims heap_with_def)
  have c: "contents ?H 16 = [[1], [2], [3], [4]]" "contents ?H' 16 = [[1], [2], [1], [2]]"
    by (simp_all add: contents_def heap_with_def prims elements_of_numeral elements_of_1)
  have s: "vector_slice 16 0 (OutElement 16 42) 2 ?H = Inr (OutElement 16 42, ?H')"
    by (simp add: vector_slice_def prims heap_with_def header_bytes_def bytes_of_def)
  have "?H' \<noteq> ?H"
  proof
    assume "?H' = ?H"
    then have "contents ?H' 16 = contents ?H 16" by simp
    with c show False by simp
  qed
  with s have "\<not> frame (vector_slice 16 0 (OutElement 16 42) 2) ?H" by (simp add: frame_def)
  with a c s show ?thesis by simp
qed

text \<open>
  Claim C10, amended: \<^verbatim>\<open>vector_len\<close>, \<^verbatim>\<open>vector_capacity\<close>, \<^verbatim>\<open>vector_element_size\<close>,
  \<^verbatim>\<open>vector_is_empty\<close>, \<^verbatim>\<open>vector_first\<close>, \<^verbatim>\<open>vector_last\<close>, \<^verbatim>\<open>vector_at\<close> and
  \<^verbatim>\<open>vector_at_mut\<close> never modify a vector: they take the handle by value, and whenever
  they return, every block of the heap (header fields and element bytes) is as it was.
  So does \<^verbatim>\<open>vector_slice\<close> when its destination is storage of the caller outside every
  vector, or the null pointer: the bytes it copies go to the destination only.
\<close>

theorem read_only_operations_frame:
  "frame (vector_len vec) h \<and> frame (vector_capacity vec) h
   \<and> frame (vector_element_size vec) h \<and> frame (vector_is_empty vec) h
   \<and> frame (vector_first vec) h \<and> frame (vector_last vec) h
   \<and> frame (vector_at vec index) h \<and> frame (vector_at_mut vec index) h
   \<and> frame (vector_slice vec index (OutBuffer out) count) h
   \<and> frame (vector_slice vec index OutNull count) h"
  unfolding vector_len_def vector_capacity_def vector_element_size_def vector_is_empty_def
    vector_first_def vector_last_def vector_at_def vector_at_mut_def vector_slice_def
    vector_at_unchecked_def get_len_def get_capacity_def get_elementSize_def Let_def
  by (intro conjI frame_bindp frame_if frame_load frame_retp frame_abortp
      frame_memcpy_out_buffer frame_memcpy_out_null)

text \<open>
  Two runs of \<^verbatim>\<open>vector_slice\<close> into storage of the caller. The first copies the elements
  2, 3 and 4 of six. In the second the index is \<open>2\<^sup>6\<^sup>4 - 1\<close>: \<open>index + count\<close> wraps to 0 and
  passes the range check, the source address is eight bytes below the first element,
  and the bytes copied are those of the header field \<^verbatim>\<open>elementSize\<close>.
\<close>

lemma vector_slice_example:
  "vector_slice 16 2 (OutBuffer [0, 0, 0]) 3 (heap_with 8 6 1 [1, 2, 3, 4, 5, 6, 0, 0])
     = Inr (OutBuffer [3, 4, 5], heap_with 8 6 1 [1, 2, 3, 4, 5, 6, 0, 0])"
  by (simp add: vector_slice_def prims heap_with_def header_bytes_def bytes_of_def
      word_le_nat_alt word_less_nat_alt)

lemma vector_slice_reads_header:
  "vector_slice 16 (- 1) (OutBuffer [0, 0, 0, 0, 0, 0, 0, 0]) 1
       (heap_with 1 1 8 [1, 2, 3, 4, 5, 6, 7, 8])
     = Inr (OutBuffer [8, 0, 0, 0, 0, 0, 0, 0], heap_with 1 1 8 [1, 2, 3, 4, 5, 6, 7, 8])"
  by (simp add: vector_slice_def prims heap_with_def header_bytes_def bytes_of_def upt_rec
      word_le_nat_alt word_less_nat_alt)

subsection \<open>Construction\<close>

text \<open>
  Claim C4. The handle returned by \<^verbatim>\<open>vector_new(initialCapacity, elementSize)\<close> should
  report the element size it was given. At \<^verbatim>\<open>initialCapacity = 0\<close> and
  \<^verbatim>\<open>elementSize = MAX_ZERO_CAPACITY_ELEMENT_SIZE\<close>, which is \<open>2 ^ 63\<close> and does not fit
  the 63 bits above the tag, the code still returns the tagged form without
  allocating: the shift drops the only set bit, the handle is \<open>1\<close> and
  \<^verbatim>\<open>vector_element_size\<close> reports \<open>0\<close>.
\<close>

theorem vector_new_max_element_size_lost:
  "vector_new 0 MAX_ZERO_CAPACITY_ELEMENT_SIZE newBase junk h = Inr (1, h)
   \<and> vector_element_size 1 h = Inr (0, h)
   \<and> MAX_ZERO_CAPACITY_ELEMENT_SIZE = 2 ^ 63
   \<and> MAX_ZERO_CAPACITY_ELEMENT_SIZE \<noteq> 0"
  by (simp add: vector_new_def vector_element_size_def vector_base_def retp_def
      MAX_ZERO_CAPACITY_ELEMENT_SIZE_def NULL_def Let_def)

subsection \<open>Insertion\<close>

text \<open>
  Claim C1. \<^verbatim>\<open>vector_insert(&v, index, e, count)\<close> on a heap-backed vector holding \<open>s\<close>
  should leave \<open>s[0..index) ++ e[0..count) ++ s[index..length)\<close>. The code moves
  \<^verbatim>\<open>(length - 1 - count) * elementSize\<close> bytes instead of the
  \<^verbatim>\<open>(length - index) * elementSize\<close> bytes at and after \<open>index\<close>. A vector of capacity 5
  with two-byte elements holds \<open>[1, 2, 3]\<close>; inserting the single element \<open>9\<close> at index 1
  moves one element instead of two, and the vector then holds \<open>[1, 9, 2, 0]\<close>, the last
  record being the stale bytes of the fourth slot, where \<open>[1, 9, 2, 3]\<close> is expected.
\<close>

theorem vector_insert_loses_shifted_element:
  "contents (heap_with 5 3 2 [1, 0, 2, 0, 3, 0, 0, 0, 0, 0]) 16 = [[1, 0], [2, 0], [3, 0]]
   \<and> (case vector_insert 16 1 (Buffer [9, 0]) 1 newBase junk
          (heap_with 5 3 2 [1, 0, 2, 0, 3, 0, 0, 0, 0, 0]) of
        Inl e \<Rightarrow> False
      | Inr (vec', h') \<Rightarrow>
          vec' = 16 \<and> vector_len vec' h' = Inr (4, h')
        \<and> contents h' vec' = [[1, 0], [9, 0], [2, 0], [0, 0]]
        \<and> contents h' vec' \<noteq> [[1, 0], [9, 0], [2, 0], [3, 0]])"
  by (simp add: vector_insert_def vector_reserve_def prims heap_with_def contents_def
      elements_of_numeral elements_of_1)

subsection \<open>Removal\<close>

text \<open>
  Claim C5. \<^verbatim>\<open>vector_remove(v, index, count)\<close> should abort whenever
  \<open>index + count > length\<close>. The check adds in \<^verbatim>\<open>size_t\<close>, where the sum wraps around:
  on an empty heap-backed vector of capacity 1 with four-byte elements, removing one
  element at index \<open>2 ^ 64 - 1\<close> passes the check (the sum is \<open>0\<close>), moves no byte,
  returns, and leaves the length \<open>2 ^ 64 - 1\<close> above the capacity \<open>1\<close>.
\<close>

theorem vector_remove_range_check_wraps:
  "case vector_remove 16 (- 1) 1 (heap_with 1 0 4 [0, 0, 0, 0]) of
     Inl e \<Rightarrow> False
   | Inr (u, h') \<Rightarrow>
       vector_len 16 h' = Inr (- 1, h') \<and> vector_capacity 16 h' = Inr (1, h')
     \<and> unat (- 1 :: size_t) = 2 ^ 64 - 1"
  by (simp add: vector_remove_def prims heap_with_def unsigned_minus_1_eq_mask mask_eq_exp_minus_1)

subsection \<open>Heap-backed handles\<close>

lemma valid_heapD:
  assumes "valid_vector h vec" and "vector_base vec \<noteq> NULL"
  obtains b hdr where "vec AND 1 = 0" "vec \<noteq> 0" "vector_base vec = vec"
    "h vec = Some b" "header b = Some hdr" "len hdr \<le> capacity hdr"
    "length (elems b) = unat (capacity hdr) * unat (elementSize hdr)"
    "bsize b = 24 + length (elems b)" "unat vec + bsize b < 2 ^ 64"
  using assms
  by (auto simp: valid_vector_def vector_base_def NULL_def sizeof_header_def Let_def
      split: if_splits option.splits)

lemma valid_heapI:
  assumes "vec AND 1 = 0" and "vec \<noteq> 0" and "h vec = Some b" and "header b = Some hdr"
    and "len hdr \<le> capacity hdr"
    and "length (elems b) = unat (capacity hdr) * unat (elementSize hdr)"
    and "bsize b = 24 + length (elems b)" and "unat vec + bsize b < 2 ^ 64"
  shows "valid_vector h vec"
  using assms by (simp add: valid_vector_def NULL_def sizeof_header_def)

lemma set_len_same:
  "h p = Some b \<Longrightarrow> header b = Some hdr \<Longrightarrow> set_len p (len hdr) h = Inr ((), h)"
  by (simp add: set_len_def map_upd_triv)

lemma unat_mult_bounded:
  fixes i es :: size_t
  assumes "unat i \<le> c" and "c * unat es < 2 ^ 64"
  shows "unat (i * es) = unat i * unat es"
proof -
  have "unat i * unat es \<le> c * unat es" using assms(1) by (rule mult_le_mono1)
  then have "unat i * unat es < 2 ^ 64" using assms(2) by (rule le_less_trans)
  then show ?thesis using unat_mult_lem [of i es] by simp
qed

lemma take_drop_same: "take d xs @ take k (drop d xs) @ drop (d + k) xs = xs"
  by (metis append_take_drop_id drop_drop add.commute)

lemma memmove_identity:
  assumes "h base = Some b" and "offset_in base p + unat n \<le> length (elems b)"
  shows "memmove base p p n h = Inr ((), h)"
  using assms by (simp add: memmove_def Let_def take_drop_same map_upd_triv)

subsection \<open>Operations with a count of zero\<close>

text \<open>
  Claim C2, as stated: for every vector, the tagged-empty form included, and every
  index, \<^verbatim>\<open>vector_insert\<close>, \<^verbatim>\<open>vector_push\<close>, \<^verbatim>\<open>vector_remove\<close> and \<^verbatim>\<open>vector_slice\<close> with a
  count of zero never abort. The code aborts on the tagged-empty form (its header
  pointer is null) and on an index beyond the length.
\<close>

theorem zero_count_aborts:
  "vector_insert 9 0 Null 0 0 (\<lambda>i. 0) Map.empty = Inl Abort
   \<and> vector_slice 9 0 OutNull 0 Map.empty = Inl Abort
   \<and> vector_slice 16 5 OutNull 0 (heap_with 5 3 2 [1, 0, 2, 0, 3, 0, 0, 0, 0, 0]) = Inl Abort
   \<and> vector_remove 16 5 0 (heap_with 5 3 2 [1, 0, 2, 0, 3, 0, 0, 0, 0, 0]) = Inl Abort"
  by (simp add: vector_insert_def vector_reserve_def vector_slice_def vector_remove_def
      prims heap_with_def)

text \<open>
  Claim C2, amended: for every heap-backed vector and every index up to its length,
  \<^verbatim>\<open>vector_push\<close>, \<^verbatim>\<open>vector_insert\<close> at the end, \<^verbatim>\<open>vector_remove\<close> and \<^verbatim>\<open>vector_slice\<close> with
  a count of zero return without aborting and leave the handle and the whole heap
  (length, capacity, contents) unchanged, whatever the elements or output pointer is,
  the null pointer included.
\<close>

theorem zero_count_is_noop:
  assumes "valid_vector h vec" and "vector_base vec \<noteq> NULL"
    and "vector_len vec h = Inr (n, h)" and "index \<le> n"
  shows "vector_push vec elements 0 newBase junk h = Inr (vec, h)
    \<and> vector_insert vec n elements 0 newBase junk h = Inr (vec, h)
    \<and> vector_remove vec index 0 h = Inr ((), h)
    \<and> vector_slice vec index out 0 h = Inr (out, h)"
proof -
  from assms(1,2) obtain b hdr where f: "vec AND 1 = 0" "vec \<noteq> 0" "h vec = Some b"
    "header b = Some hdr" "len hdr \<le> capacity hdr"
    "length (elems b) = unat (capacity hdr) * unat (elementSize hdr)"
    "bsize b = 24 + length (elems b)" "unat vec + bsize b < 2 ^ 64"
    by (rule valid_heapD)
  with assms(3) have n: "n = len hdr" by (simp add: prims)
  have sl: "set_len vec (len hdr) h = Inr ((), h)" using f by (simp add: set_len_same)
  have ins: "vector_insert vec n elements 0 newBase junk h = Inr (vec, h)"
    using f sl by (simp add: n vector_insert_def vector_reserve_def prims del: set_len_def)
  have push: "vector_push vec elements 0 newBase junk h = Inr (vec, h)"
    using assms(3) ins by (simp add: vector_push_def bindp_def)
  have cap: "unat (capacity hdr) * unat (elementSize hdr) < 2 ^ 64" using f by simp
  have le: "unat index \<le> unat (len hdr)" "unat (len hdr) \<le> unat (capacity hdr)"
    using assms(4) f by (simp_all add: n word_le_nat_alt)
  have "unat (index * elementSize hdr) = unat index * unat (elementSize hdr)"
    using le cap by (intro unat_mult_bounded [where c = "unat (capacity hdr)"]) simp_all
  moreover have "unat (len hdr - index) = unat (len hdr) - unat index"
    using assms(4) by (simp add: n unat_sub)
  moreover have "unat ((len hdr - index) * elementSize hdr)
       = unat (len hdr - index) * unat (elementSize hdr)"
    using le cap assms(4)
    by (intro unat_mult_bounded [where c = "unat (capacity hdr)"]) (simp_all add: n unat_sub)
  moreover have "unat index * unat (elementSize hdr)
      + (unat (len hdr) - unat index) * unat (elementSize hdr)
      = unat (len hdr) * unat (elementSize hdr)"
    using le by (simp add: add_mult_distrib [symmetric])
  moreover have "unat (len hdr) * unat (elementSize hdr)
      \<le> unat (capacity hdr) * unat (elementSize hdr)"
    using le by (intro mult_le_mono1)
  ultimately have "offset_in vec (vec + sizeof_header + index * elementSize hdr)
       + unat ((len hdr - index) * elementSize hdr) \<le> length (elems b)"
    using f by (simp add: offset_in_def)
  then have mm: "memmove vec (vec + sizeof_header + index * elementSize hdr)
      (vec + sizeof_header + index * elementSize hdr)
      ((len hdr - index) * elementSize hdr) h = Inr ((), h)"
    using f by (intro memmove_identity)
  have rem: "vector_remove vec index 0 h = Inr ((), h)"
    using f sl mm assms(4)
    by (simp add: n vector_remove_def bindp_def retp_def abortp_def load_header_def
        get_len_def get_elementSize_def NULL_def Let_def vector_base_def
        vector_at_unchecked_def vector_len_def)
  have sli: "vector_slice vec index out 0 h = Inr (out, h)"
    using f assms(4) by (simp add: n vector_slice_def prims)
  from ins push rem sli show ?thesis by simp
qed

theorem zero_count_is_noop_witness:
  "valid_vector (heap_with 5 3 2 [1, 0, 2, 0, 3, 0, 0, 0, 0, 0]) 16
   \<and> vector_base 16 \<noteq> NULL
   \<and> vector_len 16 (heap_with 5 3 2 [1, 0, 2, 0, 3, 0, 0, 0, 0, 0])
       = Inr (3, heap_with 5 3 2 [1, 0, 2, 0, 3, 0, 0, 0, 0, 0])
   \<and> (1 :: size_t) \<le> 3
   \<and> vector_push 16 Null 0 0 (\<lambda>i. 0) (heap_with 5 3 2 [1, 0, 2, 0, 3, 0, 0, 0, 0, 0])
       = Inr (16, heap_with 5 3 2 [1, 0, 2, 0, 3, 0, 0, 0, 0, 0])
   \<and> vector_insert 16 3 Null 0 0 (\<lambda>i. 0) (heap_with 5 3 2 [1, 0, 2, 0, 3, 0, 0, 0, 0, 0])
       = Inr (16, heap_with 5 3 2 [1, 0, 2, 0, 3, 0, 0, 0, 0, 0])
   \<and> vector_remove 16 1 0 (heap_with 5 3 2 [1, 0, 2, 0, 3, 0, 0, 0, 0, 0])
       = Inr ((), heap_with 5 3 2 [1, 0, 2, 0, 3, 0, 0, 0, 0, 0])
   \<and> vector_slice 16 1 OutNull 0 (heap_with 5 3 2 [1, 0, 2, 0, 3, 0, 0, 0, 0, 0])
       = Inr (OutNull, heap_with 5 3 2 [1, 0, 2, 0, 3, 0, 0, 0, 0, 0])"
proof -
  let ?H = "heap_with 5 3 2 [1, 0, 2, 0, 3, 0, 0, 0, 0, 0]"
  have v: "valid_vector ?H 16"
    by (simp add: valid_vector_def heap_with_def NULL_def sizeof_header_def)
  have b: "vector_base 16 \<noteq> NULL" by (simp add: vector_base_def NULL_def)
  have l: "vector_len 16 ?H = Inr (3, ?H)" by (simp add: prims heap_with_def)
  have i: "(1 :: size_t) \<le> 3" by simp
  from zero_count_is_noop [OF v b l i, of Null 0 "\<lambda>i. 0" OutNull] v b l i
  show ?thesis by blast
qed

subsection \<open>Clearing\<close>

text \<open>
  Claim C9. For every heap-backed vector \<open>v\<close>, \<^verbatim>\<open>vector_remove(v, 0, vector_len(v))\<close> and
  \<^verbatim>\<open>vector_clear(v)\<close> return with the same heap: the handle is passed by value and
  stays as it is, the length is zero, and the capacity, the element size and the
  element bytes of the block are the ones before the call.
\<close>

theorem remove_all_is_clear:
  assumes "valid_vector h vec" and "vector_base vec \<noteq> NULL"
    and "vector_len vec h = Inr (n, h)"
  shows "vector_remove vec 0 n h = vector_clear vec h
    \<and> (case vector_clear vec h of Inl e \<Rightarrow> False
        | Inr (u, h') \<Rightarrow> vector_len vec h' = Inr (0, h')
            \<and> value_of (vector_capacity vec) h' = value_of (vector_capacity vec) h
            \<and> value_of (vector_element_size vec) h' = value_of (vector_element_size vec) h
            \<and> map_option elems (h' vec) = map_option elems (h vec))"
proof -
  from assms(1,2) obtain b hdr where f: "vec AND 1 = 0" "vec \<noteq> 0" "h vec = Some b"
    "header b = Some hdr"
    by (rule valid_heapD)
  with assms(3) have n: "n = len hdr" by (simp add: prims)
  show ?thesis using f
    by (simp add: n vector_remove_def vector_clear_def prims value_of_def)
qed

theorem remove_all_is_clear_witness:
  "valid_vector (heap_with 5 3 2 [1, 0, 2, 0, 3, 0, 0, 0, 0, 0]) 16
   \<and> vector_base 16 \<noteq> NULL
   \<and> vector_len 16 (heap_with 5 3 2 [1, 0, 2, 0, 3, 0, 0, 0, 0, 0])
       = Inr (3, heap_with 5 3 2 [1, 0, 2, 0, 3, 0, 0, 0, 0, 0])
   \<and> vector_remove 16 0 3 (heap_with 5 3 2 [1, 0, 2, 0, 3, 0, 0, 0, 0, 0])
       = vector_clear 16 (heap_with 5 3 2 [1, 0, 2, 0, 3, 0, 0, 0, 0, 0])
   \<and> vector_clear 16 (heap_with 5 3 2 [1, 0, 2, 0, 3, 0, 0, 0, 0, 0])
       = Inr ((), heap_with 5 0 2 [1, 0, 2, 0, 3, 0, 0, 0, 0, 0])"
proof -
  let ?H = "heap_with 5 3 2 [1, 0, 2, 0, 3, 0, 0, 0, 0, 0]"
  have v: "valid_vector ?H 16"
    by (simp add: valid_vector_def heap_with_def NULL_def sizeof_header_def)
  have b: "vector_base 16 \<noteq> NULL" by (simp add: vector_base_def NULL_def)
  have l: "vector_len 16 ?H = Inr (3, ?H)" by (simp add: prims heap_with_def)
  have c: "vector_clear 16 ?H = Inr ((), heap_with 5 0 2 [1, 0, 2, 0, 3, 0, 0, 0, 0, 0])"
    by (simp add: vector_clear_def prims heap_with_def)
  from remove_all_is_clear [OF v b l] v b l c show ?thesis by blast
qed

subsection \<open>Positional access\<close>

lemma element_address:
  fixes vec i es cap :: size_t
  assumes "unat vec + (24 + unat cap * unat es) < 2 ^ 64" and "i \<le> cap"
  shows "unat (i * es) = unat i * unat es"
    and "unat (vec + sizeof_header + i * es) = unat vec + 24 + unat i * unat es"
    and "vec + sizeof_header + i * es \<noteq> NULL"
    and "offset_in vec (vec + sizeof_header + i * es) = unat i * unat es"
proof -
  have le: "unat i \<le> unat cap" using assms(2) by (simp add: word_le_nat_alt)
  have c: "unat cap * unat es < 2 ^ 64" using assms(1) by simp
  show m: "unat (i * es) = unat i * unat es"
    using le c by (rule unat_mult_bounded)
  have "unat i * unat es \<le> unat cap * unat es" using le by (rule mult_le_mono1)
  with assms(1) have b: "unat vec + 24 + unat i * unat es < 2 ^ 64" by linarith
  have v: "unat (vec + sizeof_header) = unat vec + 24"
    using b unat_add_lem [of vec sizeof_header] by (simp add: sizeof_header_def)
  show a: "unat (vec + sizeof_header + i * es) = unat vec + 24 + unat i * unat es"
    using b v m unat_add_lem [of "vec + sizeof_header" "i * es"] by simp
  show "vec + sizeof_header + i * es \<noteq> NULL"
  proof
    assume "vec + sizeof_header + i * es = NULL"
    then have "unat (vec + sizeof_header + i * es) = 0" by (simp add: NULL_def)
    with a show False by simp
  qed
  show "offset_in vec (vec + sizeof_header + i * es) = unat i * unat es"
    by (simp add: offset_in_def m)
qed

text \<open>
  Claim C7. For every valid vector and every index, \<^verbatim>\<open>vector_at\<close> and \<^verbatim>\<open>vector_at_mut\<close>
  return the address of the element at that position when \<open>index < length\<close> and the
  null pointer otherwise; \<^verbatim>\<open>vector_first\<close> and \<^verbatim>\<open>vector_last\<close> return the null pointer
  exactly when the vector is empty. The address of an element below the length is not
  null and lies \<open>index * elementSize\<close> bytes into the element bytes. All four always
  return: none of them aborts.
\<close>

theorem positional_lookup:
  assumes "valid_vector h vec" and "vector_len vec h = Inr (n, h)"
    and "vector_element_size vec h = Inr (es, h)"
  shows "vector_at_mut vec index h
           = Inr (if index < n then vec + sizeof_header + index * es else NULL, h)
    \<and> vector_at vec index h = vector_at_mut vec index h
    \<and> vector_first vec h = Inr (if n = 0 then NULL else vec + sizeof_header, h)
    \<and> vector_last vec h = Inr (if n = 0 then NULL else vec + sizeof_header + (n - 1) * es, h)
    \<and> (i < n \<longrightarrow> vec + sizeof_header + i * es \<noteq> NULL
          \<and> offset_in vec (vec + sizeof_header + i * es) = unat i * unat es)"
proof (cases "vector_base vec = NULL")
  case True
  with assms(2) have "n = 0" by (simp add: vector_len_def retp_def Let_def)
  with True assms(2) show ?thesis
    by (simp add: vector_at_mut_def vector_at_def vector_first_def vector_last_def
        bindp_def retp_def)
next
  case False
  with assms(1) obtain b hdr where f: "vec AND 1 = 0" "vec \<noteq> 0" "h vec = Some b"
    "header b = Some hdr" "len hdr \<le> capacity hdr"
    "length (elems b) = unat (capacity hdr) * unat (elementSize hdr)"
    "bsize b = 24 + length (elems b)" "unat vec + bsize b < 2 ^ 64"
    by (rule valid_heapD)
  from f assms(2,3) have n: "n = len hdr" and es: "es = elementSize hdr"
    by (simp_all add: prims)
  have bound: "unat vec + (24 + unat (capacity hdr) * unat es) < 2 ^ 64"
    using f by (simp add: es)
  have nn: "i < n \<longrightarrow> vec + sizeof_header + i * es \<noteq> NULL
          \<and> offset_in vec (vec + sizeof_header + i * es) = unat i * unat es"
  proof
    assume "i < n"
    then have "i \<le> capacity hdr" using f by (simp add: n)
    from element_address(3,4) [OF bound this] show "vec + sizeof_header + i * es \<noteq> NULL
          \<and> offset_in vec (vec + sizeof_header + i * es) = unat i * unat es" by simp
  qed
  have "n = 0 \<longleftrightarrow> \<not> 0 < n" using word_neq_0_conv [of n] by blast
  then show ?thesis using f nn unfolding n es
    by (simp add: vector_at_mut_def vector_at_def vector_first_def vector_last_def prims)
qed

theorem positional_lookup_witness:
  "valid_vector (heap_with 5 3 2 [1, 0, 2, 0, 3, 0, 0, 0, 0, 0]) 16
   \<and> vector_len 16 (heap_with 5 3 2 [1, 0, 2, 0, 3, 0, 0, 0, 0, 0])
       = Inr (3, heap_with 5 3 2 [1, 0, 2, 0, 3, 0, 0, 0, 0, 0])
   \<and> vector_element_size 16 (heap_with 5 3 2 [1, 0, 2, 0, 3, 0, 0, 0, 0, 0])
       = Inr (2, heap_with 5 3 2 [1, 0, 2, 0, 3, 0, 0, 0, 0, 0])
   \<and> vector_at 16 1 (heap_with 5 3 2 [1, 0, 2, 0, 3, 0, 0, 0, 0, 0])
       = Inr (42, heap_with 5 3 2 [1, 0, 2, 0, 3, 0, 0, 0, 0, 0])
   \<and> vector_at_mut 16 3 (heap_with 5 3 2 [1, 0, 2, 0, 3, 0, 0, 0, 0, 0])
       = Inr (NULL, heap_with 5 3 2 [1, 0, 2, 0, 3, 0, 0, 0, 0, 0])
   \<and> vector_first 16 (heap_with 5 3 2 [1, 0, 2, 0, 3, 0, 0, 0, 0, 0])
       = Inr (40, heap_with 5 3 2 [1, 0, 2, 0, 3, 0, 0, 0, 0, 0])
   \<and> vector_last 16 (heap_with 5 3 2 [1, 0, 2, 0, 3, 0, 0, 0, 0, 0])
       = Inr (44, heap_with 5 3 2 [1, 0, 2, 0, 3, 0, 0, 0, 0, 0])
   \<and> (2 :: size_t) < 3 \<and> offset_in 16 44 = 4"
proof -
  let ?H = "heap_with 5 3 2 [1, 0, 2, 0, 3, 0, 0, 0, 0, 0]"
  have v: "valid_vector ?H 16"
    by (simp add: valid_vector_def heap_with_def NULL_def sizeof_header_def)
  have l: "vector_len 16 ?H = Inr (3, ?H)" by (simp add: prims heap_with_def)
  have e: "vector_element_size 16 ?H = Inr (2, ?H)" by (simp add: prims heap_with_def)
  from positional_lookup [OF v l e, of 1 2]
  have "vector_at 16 1 ?H = Inr (42, ?H)" "vector_first 16 ?H = Inr (40, ?H)"
    "vector_last 16 ?H = Inr (44, ?H)" "offset_in 16 44 = 4"
    by (simp_all add: sizeof_header_def)
  moreover from positional_lookup [OF v l e, of 3 2]
  have "vector_at_mut 16 3 ?H = Inr (NULL, ?H)" by simp
  ultimately show ?thesis using v l e by simp
qed

subsection \<open>Growth\<close>

lemma newCapacity_unat:
  fixes c extra :: size_t
  assumes "unat c + unat c div 2 * 3 + unat extra < 2 ^ 64"
  shows "unat (c + c div 2 * 3 + extra) = unat c + unat c div 2 * 3 + unat extra"
proof -
  have d: "unat (c div 2) = unat c div 2" by (simp add: unat_div)
  have "unat (c div 2) * unat (3 :: size_t) < 2 ^ 64" using assms d by simp
  then have m: "unat (c div 2 * 3) = unat c div 2 * 3"
    using unat_mult_lem [of "c div 2" "3 :: size_t"] d by simp
  have "unat c + unat (c div 2 * 3) < 2 ^ 64" using assms m by simp
  then have a: "unat (c + c div 2 * 3) = unat c + unat c div 2 * 3"
    using unat_add_lem [of c "c div 2 * 3"] m by simp
  have "unat (c + c div 2 * 3) + unat extra < 2 ^ 64" using assms a by simp
  then show ?thesis using unat_add_lem [of "c + c div 2 * 3" extra] a by simp
qed

lemma elements_of_append:
  "n * es \<le> length xs \<Longrightarrow> elements_of es n (xs @ ys) = elements_of es n xs"
proof (induction n arbitrary: xs)
  case 0
  then show ?case by simp
next
  case (Suc n)
  then have "es \<le> length xs" "n * es \<le> length (drop es xs)" by simp_all
  with Suc.IH [of "drop es xs"] show ?case by simp
qed

lemma elements_of_resize:
  assumes "n * es \<le> length xs" and "length xs \<le> k"
  shows "elements_of es n (resize k xs junk) = elements_of es n xs"
  using assms by (simp add: resize_def elements_of_append)

lemma reserve_noop:
  assumes "vector_len vec h = Inr (n, h)" and "vector_capacity vec h = Inr (c, h)"
    and "n + extra \<le> c"
  shows "vector_reserve vec extra nb junk h = Inr (vec, h)"
  using assms by (simp add: vector_reserve_def bindp_def retp_def)

text \<open>The heap after a growing reserve.\<close>

lemma reserve_grow:
  assumes "vector_len vec h = Inr (n, h)" and "vector_capacity vec h = Inr (c, h)"
    and "vector_element_size vec h = Inr (es, h)"
    and "\<not> n + extra \<le> c" and "nb \<noteq> NULL"
    and "vector_base vec \<noteq> NULL \<longrightarrow> h (vector_base vec) = Some b"
    and "24 \<le> unat (sizeof_header + (c + c div 2 * 3 + extra) * es)"
  shows "vector_reserve vec extra nb junk h =
     Inr (nb, (if vector_base vec = NULL then h else h(vector_base vec := None))(nb \<mapsto>
        \<lparr>bsize = unat (sizeof_header + (c + c div 2 * 3 + extra) * es),
         header = Some \<lparr>capacity = c + c div 2 * 3 + extra, len = n, elementSize = es\<rparr>,
         elems = resize (unat (sizeof_header + (c + c div 2 * 3 + extra) * es) - 24)
           (if vector_base vec = NULL then [] else elems b) junk\<rparr>))"
  using assms
  by (simp add: vector_reserve_def bindp_def retp_def abortp_def realloc_def malloc_def
      store_header_def sizeof_header_def Let_def)

lemma alloc_size_unat:
  fixes k es :: size_t
  assumes "24 + unat k * unat es < 2 ^ 64"
  shows "unat (sizeof_header + k * es) = 24 + unat k * unat es"
proof -
  have "unat k * unat es < 2 ^ 64" using assms by simp
  then have m: "unat (k * es) = unat k * unat es" using unat_mult_lem [of k es] by simp
  have "unat sizeof_header + unat (k * es) < 2 ^ 64" using assms m by (simp add: sizeof_header_def)
  then show ?thesis using unat_add_lem [of sizeof_header "k * es"] m
    by (simp add: sizeof_header_def)
qed

text \<open>What the accessors report on a valid handle.\<close>

lemma valid_cases:
  assumes "valid_vector h vec" and "vector_len vec h = Inr (n, h)"
    and "vector_capacity vec h = Inr (c, h)" and "vector_element_size vec h = Inr (es, h)"
  obtains (tagged) "vector_base vec = NULL" "n = 0" "c = 0" "contents h vec = []"
  | (heap) b where "vector_base vec = vec" "vec \<noteq> NULL" "h vec = Some b"
      "header b = Some \<lparr>capacity = c, len = n, elementSize = es\<rparr>" "n \<le> c"
      "length (elems b) = unat c * unat es" "unat vec + (24 + unat c * unat es) < 2 ^ 64"
      "contents h vec = elements_of (unat es) (unat n) (elems b)"
      "bsize b = 24 + length (elems b)"
proof (cases "vector_base vec = NULL")
  case True
  with assms(2,3) have "n = 0" "c = 0"
    by (simp_all add: vector_len_def vector_capacity_def retp_def Let_def)
  moreover from True have "contents h vec = []" by (simp add: contents_def)
  ultimately show ?thesis using True by (intro tagged)
next
  case False
  with assms(1) obtain b hdr where f: "vec AND 1 = 0" "vec \<noteq> 0" "vector_base vec = vec"
    "h vec = Some b" "header b = Some hdr" "len hdr \<le> capacity hdr"
    "length (elems b) = unat (capacity hdr) * unat (elementSize hdr)"
    "bsize b = 24 + length (elems b)" "unat vec + bsize b < 2 ^ 64"
    by (rule valid_heapD)
  from f assms(2,3,4) have e: "n = len hdr" "c = capacity hdr" "es = elementSize hdr"
    by (simp_all add: prims)
  then have hdr: "hdr = \<lparr>capacity = c, len = n, elementSize = es\<rparr>" by simp
  show ?thesis
  proof (rule heap)
    show "vector_base vec = vec" by (rule f)
    show "vec \<noteq> NULL" using f by (simp add: NULL_def)
    show "h vec = Some b" by (rule f)
    show "header b = Some \<lparr>capacity = c, len = n, elementSize = es\<rparr>" using f hdr by simp
    show "n \<le> c" using f e by simp
    show "length (elems b) = unat c * unat es" using f e by simp
    show "unat vec + (24 + unat c * unat es) < 2 ^ 64" using f e by simp
    show "contents h vec = elements_of (unat es) (unat n) (elems b)"
      using f e False by (simp add: contents_def)
    show "bsize b = 24 + length (elems b)" by (rule f)
  qed
qed

text \<open>
  Claim C3, as stated: when it grows, \<^verbatim>\<open>vector_reserve\<close> installs the capacity
  \<open>capacity + floor (capacity * 1.5) + extraCapacity\<close>. The code computes
  \<^verbatim>\<open>oldCapacity + (oldCapacity / 2 * 3) + extraCapacity\<close> and divides first: from a full
  vector of capacity 1, reserving 1 more gives the capacity 2, where the formula of the
  claim gives 3.
\<close>

theorem vector_reserve_odd_capacity:
  "case vector_reserve 16 1 32 (\<lambda>i. 0) (heap_with 1 1 1 [7]) of
     Inl e \<Rightarrow> False
   | Inr (vec', h') \<Rightarrow>
       vector_capacity vec' h' = Inr (2, h') \<and> spec_newCapacity 1 1 = 3"
  by (simp add: vector_reserve_def prims heap_with_def spec_newCapacity_def word_le_nat_alt)

text \<open>
  Claim C3, amended: \<^verbatim>\<open>vector_reserve(&v, extraCapacity)\<close> on a valid vector is a no-op
  when \<open>length + extraCapacity \<le> capacity\<close>. Otherwise, when the allocation succeeds
  and the new capacity \<open>capacity + (capacity div 2) * 3 + extraCapacity\<close> and the size of
  the new block fit \<^verbatim>\<open>size_t\<close>, it installs that capacity and preserves the length, the
  element size and the elements held.
\<close>

theorem vector_reserve_growth:
  assumes "valid_vector h vec" and "vector_len vec h = Inr (n, h)"
    and "vector_capacity vec h = Inr (c, h)" and "vector_element_size vec h = Inr (es, h)"
  shows "(unat n + unat extra \<le> unat c \<longrightarrow> vector_reserve vec extra nb junk h = Inr (vec, h))
    \<and> (unat c < unat n + unat extra \<longrightarrow> alloc_ok h (vector_base vec) nb \<longrightarrow>
        unat c + unat c div 2 * 3 + unat extra < 2 ^ 64 \<longrightarrow>
        24 + (unat c + unat c div 2 * 3 + unat extra) * unat es < 2 ^ 64 \<longrightarrow>
        (case vector_reserve vec extra nb junk h of Inl e \<Rightarrow> False
         | Inr (vec', h') \<Rightarrow> vec' = nb
            \<and> vector_capacity vec' h' = Inr (c + c div 2 * 3 + extra, h')
            \<and> unat (c + c div 2 * 3 + extra) = unat c + unat c div 2 * 3 + unat extra
            \<and> vector_len vec' h' = Inr (n, h')
            \<and> vector_element_size vec' h' = Inr (es, h')
            \<and> contents h' vec' = contents h vec))"
proof (intro conjI impI)
  assume le: "unat n + unat extra \<le> unat c"
  have "unat c < 2 ^ 64" using unsigned_less [of c] by simp
  with le have "unat n + unat extra < 2 ^ 64" by simp
  then have "unat (n + extra) = unat n + unat extra" using unat_add_lem [of n extra] by simp
  with le have "n + extra \<le> c" by (simp add: word_le_nat_alt)
  with assms(2,3) show "vector_reserve vec extra nb junk h = Inr (vec, h)"
    by (rule reserve_noop)
next
  let ?k = "c + c div 2 * 3 + extra"
  assume gt: "unat c < unat n + unat extra"
    and ok: "alloc_ok h (vector_base vec) nb"
    and cap: "unat c + unat c div 2 * 3 + unat extra < 2 ^ 64"
    and sz: "24 + (unat c + unat c div 2 * 3 + unat extra) * unat es < 2 ^ 64"
  have k: "unat ?k = unat c + unat c div 2 * 3 + unat extra"
    using cap by (rule newCapacity_unat)
  have size: "unat (sizeof_header + ?k * es) = 24 + unat ?k * unat es"
    using sz k by (intro alloc_size_unat) simp
  have nb: "nb \<noteq> NULL" "nb AND 1 = 0" "nb \<noteq> 0"
    using ok by (simp_all add: alloc_ok_def NULL_def)
  from assms show "case vector_reserve vec extra nb junk h of Inl e \<Rightarrow> False
         | Inr (vec', h') \<Rightarrow> vec' = nb
            \<and> vector_capacity vec' h' = Inr (?k, h')
            \<and> unat ?k = unat c + unat c div 2 * 3 + unat extra
            \<and> vector_len vec' h' = Inr (n, h')
            \<and> vector_element_size vec' h' = Inr (es, h')
            \<and> contents h' vec' = contents h vec"
  proof (cases rule: valid_cases)
    case tagged
    have "\<not> n + extra \<le> c" using gt tagged by (simp add: word_le_nat_alt)
    from reserve_grow [OF assms(2,3,4) this nb(1), of undefined junk] tagged size
    show ?thesis using nb k by (simp add: prims contents_def)
  next
    case (heap b)
    have "unat n \<le> unat c" using heap by (simp add: word_le_nat_alt)
    with cap have "unat n + unat extra < 2 ^ 64" by simp
    then have "unat (n + extra) = unat n + unat extra" using unat_add_lem [of n extra] by simp
    with gt have g: "\<not> n + extra \<le> c" by (simp add: word_le_nat_alt)
    have "unat c * unat es \<le> unat ?k * unat es" using k by (intro mult_le_mono1) simp
    moreover have "unat n * unat es \<le> unat c * unat es"
      using \<open>unat n \<le> unat c\<close> by (rule mult_le_mono1)
    ultimately have "elements_of (unat es) (unat n) (resize (unat ?k * unat es) (elems b) junk)
        = elements_of (unat es) (unat n) (elems b)"
      using heap by (intro elements_of_resize) simp_all
    with reserve_grow [OF assms(2,3,4) g nb(1), of b junk] heap size
    show ?thesis using nb k by (simp add: prims contents_def)
  qed
qed

theorem vector_reserve_growth_witness:
  "valid_vector (heap_with 1 1 1 [7]) 16
   \<and> vector_len 16 (heap_with 1 1 1 [7]) = Inr (1, heap_with 1 1 1 [7])
   \<and> vector_capacity 16 (heap_with 1 1 1 [7]) = Inr (1, heap_with 1 1 1 [7])
   \<and> vector_element_size 16 (heap_with 1 1 1 [7]) = Inr (1, heap_with 1 1 1 [7])
   \<and> unat (1 :: size_t) + unat (0 :: size_t) \<le> unat (1 :: size_t)
   \<and> vector_reserve 16 0 32 (\<lambda>i. 0) (heap_with 1 1 1 [7]) = Inr (16, heap_with 1 1 1 [7])
   \<and> unat (1 :: size_t) < unat (1 :: size_t) + unat (1 :: size_t)
   \<and> alloc_ok (heap_with 1 1 1 [7]) (vector_base 16) 32
   \<and> unat (1 :: size_t) + unat (1 :: size_t) div 2 * 3 + unat (1 :: size_t) < 2 ^ 64
   \<and> 24 + (unat (1 :: size_t) + unat (1 :: size_t) div 2 * 3 + unat (1 :: size_t))
         * unat (1 :: size_t) < 2 ^ 64
   \<and> (case vector_reserve 16 1 32 (\<lambda>i. 0) (heap_with 1 1 1 [7]) of Inl e \<Rightarrow> False
       | Inr (vec', h') \<Rightarrow> vec' = 32
          \<and> vector_capacity vec' h' = Inr (2, h')
          \<and> vector_len vec' h' = Inr (1, h')
          \<and> vector_element_size vec' h' = Inr (1, h')
          \<and> contents h' vec' = [[7]])"
proof -
  let ?H = "heap_with 1 1 1 [7]"
  have v: "valid_vector ?H 16"
    by (simp add: valid_vector_def heap_with_def NULL_def sizeof_header_def)
  have l: "vector_len 16 ?H = Inr (1, ?H)" by (simp add: prims heap_with_def)
  have c: "vector_capacity 16 ?H = Inr (1, ?H)" by (simp add: prims heap_with_def)
  have e: "vector_element_size 16 ?H = Inr (1, ?H)" by (simp add: prims heap_with_def)
  have a: "alloc_ok ?H (vector_base 16) 32"
    by (simp add: alloc_ok_def heap_with_def vector_base_def NULL_def)
  have s: "contents ?H 16 = [[7]]" by (simp add: contents_def heap_with_def prims)
  from vector_reserve_growth [OF v l c e, of 0 32 "\<lambda>i. 0"]
  have n: "vector_reserve 16 0 32 (\<lambda>i. 0) ?H = Inr (16, ?H)" by simp
  from vector_reserve_growth [OF v l c e, of 1 32 "\<lambda>i. 0"] a s
  have g: "case vector_reserve 16 1 32 (\<lambda>i. 0) ?H of Inl e \<Rightarrow> False
       | Inr (vec', h') \<Rightarrow> vec' = 32
          \<and> vector_capacity vec' h' = Inr (2, h')
          \<and> vector_len vec' h' = Inr (1, h')
          \<and> vector_element_size vec' h' = Inr (1, h')
          \<and> contents h' vec' = [[7]]"
    by (auto split: sum.splits)
  from v l c e a n g show ?thesis by simp
qed

subsection \<open>Appending at the end, and extension\<close>

lemma elements_of_concat:
  "length xs = n * es \<Longrightarrow> elements_of es (n + m) (xs @ ys) = elements_of es n xs @ elements_of es m ys"
proof (induction n arbitrary: xs)
  case 0
  then show ?case by simp
next
  case (Suc n)
  then have "es \<le> length xs" "length (drop es xs) = n * es" by simp_all
  with Suc.IH [of "drop es xs"] show ?case by simp
qed

lemma elements_of_take:
  assumes "n * es \<le> length xs"
  shows "elements_of es n (take (n * es) xs) = elements_of es n xs"
proof -
  have "elements_of es n (take (n * es) xs @ drop (n * es) xs) = elements_of es n (take (n * es) xs)"
    using assms by (intro elements_of_append) simp
  then show ?thesis by simp
qed

lemma elements_of_spliced:
  assumes "n * es + m * es \<le> length xs" and "m * es \<le> length ys"
  shows "elements_of es (n + m) (take (n * es) xs @ take (m * es) ys @ drop (n * es + m * es) xs)
     = elements_of es n xs @ elements_of es m ys"
proof -
  have "elements_of es (n + m) (take (n * es) xs @ (take (m * es) ys @ drop (n * es + m * es) xs))
     = elements_of es n (take (n * es) xs)
       @ elements_of es m (take (m * es) ys @ drop (n * es + m * es) xs)"
    using assms by (intro elements_of_concat) simp
  moreover have "elements_of es m (take (m * es) ys @ drop (n * es + m * es) xs)
     = elements_of es m (take (m * es) ys)"
    using assms by (intro elements_of_append) simp
  ultimately show ?thesis using assms by (simp add: elements_of_take)
qed

lemma memcpy_in_result:
  assumes "h base = Some b" and "offset_in base dst + unat n \<le> length (elems b)"
    and "unat n \<le> length (source_bytes h p)" and "p \<noteq> Elems base"
  shows "memcpy_in base dst p n h = Inr ((), h(base \<mapsto> b\<lparr>elems :=
      take (offset_in base dst) (elems b) @ take (unat n) (source_bytes h p)
        @ drop (offset_in base dst + unat n) (elems b)\<rparr>))"
proof (cases "n = 0")
  case True
  then show ?thesis using assms(1) by (simp add: memcpy_in_def map_upd_triv)
next
  case False
  then have "unat n \<noteq> 0" by (simp add: unat_eq_0)
  with False assms show ?thesis
    by (cases p) (auto simp add: memcpy_in_def source_bytes_def Let_def split: option.splits)
qed

lemma length_resize: "length (resize k xs junk) = k"
  by (simp add: resize_def)

text \<open>After reserving room for \<open>count\<close> more elements the vector is heap-backed and has the room.\<close>

lemma reserve_ready:
  assumes v: "valid_vector h vec" and l: "vector_len vec h = Inr (n, h)"
    and c: "vector_capacity vec h = Inr (c, h)" and e: "vector_element_size vec h = Inr (es, h)"
    and ne: "vector_base vec = NULL \<longrightarrow> count \<noteq> 0"
    and ok: "alloc_ok h (vector_base vec) nb"
    and cap: "unat c + unat c div 2 * 3 + unat count < 2 ^ 64"
    and sz: "24 + (unat c + unat c div 2 * 3 + unat count) * unat es < 2 ^ 64"
  obtains v1 h1 b1 c1 where "vector_reserve vec count nb junk h = Inr (v1, h1)"
    "v1 AND 1 = 0" "v1 \<noteq> 0" "h1 v1 = Some b1"
    "header b1 = Some \<lparr>capacity = c1, len = n, elementSize = es\<rparr>"
    "unat n + unat count \<le> unat c1" "length (elems b1) = unat c1 * unat es"
    "unat c1 * unat es < 2 ^ 64"
    "elements_of (unat es) (unat n) (elems b1) = contents h vec"
    "\<forall>p. p \<noteq> vector_base vec \<longrightarrow> p \<noteq> nb \<longrightarrow> h1 p = h p"
    "v1 = vec \<or> v1 = nb"
    "bsize b1 = 24 + length (elems b1)"
    "unat nb + (24 + (unat c + unat c div 2 * 3 + unat count) * unat es) < 2 ^ 64
       \<longrightarrow> unat v1 + bsize b1 < 2 ^ 64"
proof -
  let ?k = "c + c div 2 * 3 + count"
  have k: "unat ?k = unat c + unat c div 2 * 3 + unat count"
    using cap by (rule newCapacity_unat)
  have size: "unat (sizeof_header + ?k * es) = 24 + unat ?k * unat es"
    using sz k by (intro alloc_size_unat) simp
  have nb: "nb \<noteq> NULL" "nb AND 1 = 0" "nb \<noteq> 0"
    using ok by (simp_all add: alloc_ok_def NULL_def)
  have kes: "unat ?k * unat es < 2 ^ 64" using sz k by simp
  from v l c e show ?thesis
  proof (cases rule: valid_cases)
    case tagged
    with ne have "count \<noteq> 0" by simp
    then have "unat count \<noteq> 0" by (simp add: unat_eq_0)
    then have g: "\<not> n + count \<le> c" using tagged by (simp add: word_le_nat_alt)
    let ?b1 = "\<lparr>bsize = unat (sizeof_header + ?k * es),
         header = Some \<lparr>capacity = ?k, len = n, elementSize = es\<rparr>,
         elems = resize (unat (sizeof_header + ?k * es) - 24) [] junk\<rparr>"
    from reserve_grow [OF l c e g nb(1), of undefined junk] tagged size
    have r: "vector_reserve vec count nb junk h = Inr (nb, h(nb \<mapsto> ?b1))" by simp
    show ?thesis
    proof (rule that [OF r nb(2,3)])
      show "(h(nb \<mapsto> ?b1)) nb = Some ?b1" by simp
      show "header ?b1 = Some \<lparr>capacity = ?k, len = n, elementSize = es\<rparr>" by simp
      show "unat n + unat count \<le> unat ?k" using k tagged by simp
      show "length (elems ?b1) = unat ?k * unat es" using size by (simp add: length_resize)
      show "unat ?k * unat es < 2 ^ 64" by (rule kes)
      show "elements_of (unat es) (unat n) (elems ?b1) = contents h vec" using tagged by simp
      show "\<forall>p. p \<noteq> vector_base vec \<longrightarrow> p \<noteq> nb \<longrightarrow> (h(nb \<mapsto> ?b1)) p = h p" by simp
      show "nb = vec \<or> nb = nb" by simp
      show "bsize ?b1 = 24 + length (elems ?b1)" using size by (simp add: length_resize)
      show "unat nb + (24 + (unat c + unat c div 2 * 3 + unat count) * unat es) < 2 ^ 64
         \<longrightarrow> unat nb + bsize ?b1 < 2 ^ 64" using size k by simp
    qed
  next
    case (heap b)
    have nc: "unat n \<le> unat c" using heap by (simp add: word_le_nat_alt)
    with cap have "unat n + unat count < 2 ^ 64" by simp
    then have add: "unat (n + count) = unat n + unat count"
      using unat_add_lem [of n count] by simp
    have vec: "vec AND 1 = 0" "vec \<noteq> 0"
      using heap by (auto simp: vector_base_def NULL_def split: if_splits)
    show ?thesis
    proof (cases "n + count \<le> c")
      case True
      with l c have r: "vector_reserve vec count nb junk h = Inr (vec, h)" by (rule reserve_noop)
      show ?thesis
      proof (rule that [OF r vec heap(3,4)])
        show "unat n + unat count \<le> unat c" using True add by (simp add: word_le_nat_alt)
        show "length (elems b) = unat c * unat es" by (rule heap)
        show "unat c * unat es < 2 ^ 64" using heap by simp
        show "elements_of (unat es) (unat n) (elems b) = contents h vec" using heap by simp
        show "\<forall>p. p \<noteq> vector_base vec \<longrightarrow> p \<noteq> nb \<longrightarrow> h p = h p" by simp
        show "vec = vec \<or> vec = nb" by simp
        show "bsize b = 24 + length (elems b)" by (rule heap)
        show "unat nb + (24 + (unat c + unat c div 2 * 3 + unat count) * unat es) < 2 ^ 64
           \<longrightarrow> unat vec + bsize b < 2 ^ 64" using heap by simp
      qed
    next
      case False
      let ?b1 = "\<lparr>bsize = unat (sizeof_header + ?k * es),
         header = Some \<lparr>capacity = ?k, len = n, elementSize = es\<rparr>,
         elems = resize (unat (sizeof_header + ?k * es) - 24) (elems b) junk\<rparr>"
      from reserve_grow [OF l c e False nb(1), of b junk] heap size
      have r: "vector_reserve vec count nb junk h = Inr (nb, (h(vec := None))(nb \<mapsto> ?b1))"
        by simp
      have "unat c * unat es \<le> unat ?k * unat es" using k by (intro mult_le_mono1) simp
      moreover have "unat n * unat es \<le> unat c * unat es" using nc by (rule mult_le_mono1)
      ultimately have el: "elements_of (unat es) (unat n) (resize (unat ?k * unat es) (elems b) junk)
          = elements_of (unat es) (unat n) (elems b)"
        using heap by (intro elements_of_resize) simp_all
      show ?thesis
      proof (rule that [OF r nb(2,3)])
        show "((h(vec := None))(nb \<mapsto> ?b1)) nb = Some ?b1" by simp
        show "header ?b1 = Some \<lparr>capacity = ?k, len = n, elementSize = es\<rparr>" by simp
        show "unat n + unat count \<le> unat ?k" using k nc by simp
        show "length (elems ?b1) = unat ?k * unat es" using size by (simp add: length_resize)
        show "unat ?k * unat es < 2 ^ 64" by (rule kes)
        show "elements_of (unat es) (unat n) (elems ?b1) = contents h vec"
          using heap el size by simp
        show "\<forall>p. p \<noteq> vector_base vec \<longrightarrow> p \<noteq> nb \<longrightarrow> ((h(vec := None))(nb \<mapsto> ?b1)) p = h p"
          using heap by simp
        show "nb = vec \<or> nb = nb" by simp
      show "bsize ?b1 = 24 + length (elems ?b1)" using size by (simp add: length_resize)
      show "unat nb + (24 + (unat c + unat c div 2 * 3 + unat count) * unat es) < 2 ^ 64
         \<longrightarrow> unat nb + bsize ?b1 < 2 ^ 64" using size k by simp
      qed
    qed
  qed
qed

lemma insert_at_end:
  assumes v: "valid_vector h vec" and l: "vector_len vec h = Inr (n, h)"
    and c: "vector_capacity vec h = Inr (c, h)" and e: "vector_element_size vec h = Inr (es, h)"
    and ne: "vector_base vec = NULL \<longrightarrow> count \<noteq> 0"
    and ok: "alloc_ok h (vector_base vec) nb"
    and cap: "unat c + unat c div 2 * 3 + unat count < 2 ^ 64"
    and sz: "24 + (unat c + unat c div 2 * 3 + unat count) * unat es < 2 ^ 64"
    and src: "unat count * unat es \<le> length (source_bytes h elements)"
    and apart: "\<forall>sb. elements = Elems sb \<longrightarrow> sb \<noteq> vector_base vec \<and> sb \<noteq> nb"
  shows "\<exists>vec' h'. vector_insert vec n elements count nb junk h = Inr (vec', h')
    \<and> vector_len vec' h' = Inr (n + count, h')
    \<and> unat (n + count) = unat n + unat count
    \<and> vector_element_size vec' h' = Inr (es, h')
    \<and> contents h' vec'
        = contents h vec @ elements_of (unat es) (unat count) (source_bytes h elements)
    \<and> (\<forall>p. p \<noteq> vector_base vec \<longrightarrow> p \<noteq> nb \<longrightarrow> h' p = h p)
    \<and> (unat nb + (24 + (unat c + unat c div 2 * 3 + unat count) * unat es) < 2 ^ 64
         \<longrightarrow> valid_vector h' vec')"
proof -
  from v l c e ne ok cap sz obtain v1 h1 b1 c1 where
    r: "vector_reserve vec count nb junk h = Inr (v1, h1)"
    and v1: "v1 AND 1 = 0" "v1 \<noteq> 0" and b1: "h1 v1 = Some b1"
    and hdr: "header b1 = Some \<lparr>capacity = c1, len = n, elementSize = es\<rparr>"
    and room: "unat n + unat count \<le> unat c1"
    and len1: "length (elems b1) = unat c1 * unat es"
    and fits: "unat c1 * unat es < 2 ^ 64"
    and el: "elements_of (unat es) (unat n) (elems b1) = contents h vec"
    and other: "\<forall>p. p \<noteq> vector_base vec \<longrightarrow> p \<noteq> nb \<longrightarrow> h1 p = h p"
    and which: "v1 = vec \<or> v1 = nb"
    and bs: "bsize b1 = 24 + length (elems b1)"
    and inside: "unat nb + (24 + (unat c + unat c div 2 * 3 + unat count) * unat es) < 2 ^ 64
       \<longrightarrow> unat v1 + bsize b1 < 2 ^ 64"
    by (rule reserve_ready [where junk = junk])
  have "unat c1 < 2 ^ 64" using unsigned_less [of c1] by simp
  with room have "unat n + unat count < 2 ^ 64" by simp
  then have add: "unat (n + count) = unat n + unat count"
    using unat_add_lem [of n count] by simp
  have d: "unat (n * es) = unat n * unat es"
    using room fits by (intro unat_mult_bounded [where c = "unat c1"]) simp_all
  have k: "unat (count * es) = unat count * unat es"
    using room fits by (intro unat_mult_bounded [where c = "unat c1"]) simp_all
  have "(unat n + unat count) * unat es \<le> unat c1 * unat es"
    using room by (rule mult_le_mono1)
  then have inb: "unat n * unat es + unat count * unat es \<le> length (elems b1)"
    using len1 by (simp add: add_mult_distrib)
  have sb: "source_bytes h1 elements = source_bytes h elements"
    using apart other by (cases elements) (simp_all add: source_bytes_def)
  have na: "elements \<noteq> Elems v1" using apart which v1
    by (auto simp: vector_base_def NULL_def split: if_splits)
  let ?at = "v1 + sizeof_header + n * es"
  let ?E = "take (unat n * unat es) (elems b1) @ take (unat count * unat es) (source_bytes h elements)
        @ drop (unat n * unat es + unat count * unat es) (elems b1)"
  have off: "offset_in v1 ?at = unat n * unat es" by (simp add: offset_in_def d)
  have "memcpy_in v1 ?at elements (count * es) h1 = Inr ((), h1(v1 \<mapsto> b1\<lparr>elems :=
      take (offset_in v1 ?at) (elems b1) @ take (unat (count * es)) (source_bytes h1 elements)
        @ drop (offset_in v1 ?at + unat (count * es)) (elems b1)\<rparr>))"
    using b1 inb src na by (intro memcpy_in_result) (simp_all add: off k sb)
  then have mc: "memcpy_in v1 ?at elements (count * es) h1
      = Inr ((), h1(v1 \<mapsto> b1\<lparr>elems := ?E\<rparr>))"
    by (simp add: off k sb)
  let ?h' = "h1(v1 \<mapsto> b1\<lparr>elems := ?E,
      header := Some \<lparr>capacity = c1, len = n + count, elementSize = es\<rparr>\<rparr>)"
  have ins: "vector_insert vec n elements count nb junk h = Inr (v1, ?h')"
    using r v1 b1 hdr mc
    by (simp add: vector_insert_def bindp_def retp_def abortp_def load_header_def
        get_len_def get_elementSize_def set_len_def NULL_def Let_def vector_base_def
        vector_at_unchecked_def)
  have cont: "contents ?h' v1
     = contents h vec @ elements_of (unat es) (unat count) (source_bytes h elements)"
    using v1 inb src el by (simp add: contents_def vector_base_def NULL_def add elements_of_spliced)
  have frame: "\<forall>p. p \<noteq> vector_base vec \<longrightarrow> p \<noteq> nb \<longrightarrow> ?h' p = h p"
    using other which v1 by (auto simp: vector_base_def NULL_def split: if_splits)
  have lenE: "length ?E = length (elems b1)" using inb src by simp
  have le: "n + count \<le> c1" using room add by (simp add: word_le_nat_alt)
  have valid: "unat nb + (24 + (unat c + unat c div 2 * 3 + unat count) * unat es) < 2 ^ 64
       \<longrightarrow> valid_vector ?h' v1"
  proof
    assume "unat nb + (24 + (unat c + unat c div 2 * 3 + unat count) * unat es) < 2 ^ 64"
    with inside have "unat v1 + bsize b1 < 2 ^ 64" by simp
    with v1 le lenE len1 bs show "valid_vector ?h' v1"
      by (intro valid_heapI [where b = "b1\<lparr>elems := ?E,
            header := Some \<lparr>capacity = c1, len = n + count, elementSize = es\<rparr>\<rparr>"
            and hdr = "\<lparr>capacity = c1, len = n + count, elementSize = es\<rparr>"]) simp_all
  qed
  have obs: "vector_len v1 ?h' = Inr (n + count, ?h')" "vector_element_size v1 ?h' = Inr (es, ?h')"
    using v1 by (simp_all add: prims)
  from ins obs add cont frame valid show ?thesis by blast
qed

text \<open>
  Extending a vector by another one with the same element size and distinct storage,
  unless the first is tagged-empty and the second is heap-backed and empty.
\<close>

lemma extend_result:
  assumes va: "valid_vector h vec" and vb: "valid_vector h other"
    and la: "vector_len vec h = Inr (n, h)" and ca: "vector_capacity vec h = Inr (c, h)"
    and ea: "vector_element_size vec h = Inr (es, h)"
    and lb: "vector_len other h = Inr (m, h)"
    and eb: "vector_element_size other h = Inr (es, h)"
    and two: "vector_base other = NULL \<or> vector_base other \<noteq> vector_base vec"
    and ne: "vector_base vec = NULL \<longrightarrow> vector_base other = NULL \<or> m \<noteq> 0"
    and ok: "alloc_ok h (vector_base vec) nb"
    and cap: "unat c + unat c div 2 * 3 + unat m < 2 ^ 64"
    and sz: "24 + (unat c + unat c div 2 * 3 + unat m) * unat es < 2 ^ 64"
  shows "\<exists>vec' h'. vector_extend vec other nb junk h = Inr (vec', h')
    \<and> vector_len vec' h' = Inr (n + m, h')
    \<and> unat (n + m) = unat n + unat m
    \<and> vector_element_size vec' h' = Inr (es, h')
    \<and> contents h' vec' = contents h vec @ contents h other
    \<and> h' (vector_base other) = h (vector_base other)
    \<and> contents h' other = contents h other
    \<and> (unat nb + (24 + (unat c + unat c div 2 * 3 + unat m) * unat es) < 2 ^ 64
         \<longrightarrow> valid_vector h' vec')"
proof (cases "vector_base other = NULL")
  case True
  with lb have "m = 0" by (simp add: vector_len_def retp_def Let_def)
  moreover from True have "contents h other = []" by (simp add: contents_def)
  moreover from True ea eb have "vector_extend vec other nb junk h = Inr (vec, h)"
    by (simp add: vector_extend_def bindp_def retp_def)
  ultimately show ?thesis using la ea va by simp
next
  case False
  with vb obtain b2 hdr2 where o: "other AND 1 = 0" "other \<noteq> 0" "vector_base other = other"
    "h other = Some b2" "header b2 = Some hdr2" "len hdr2 \<le> capacity hdr2"
    "length (elems b2) = unat (capacity hdr2) * unat (elementSize hdr2)"
    by (rule valid_heapD)
  from o lb eb have m: "m = len hdr2" and es2: "es = elementSize hdr2"
    by (simp_all add: prims)
  have gl: "get_len other h = Inr (m, h)" using o m by (simp add: prims)
  have co: "contents h other = elements_of (unat es) (unat m) (elems b2)"
    using o m es2 by (simp add: contents_def NULL_def)
  have sbytes: "source_bytes h (Elems other) = elems b2" using o by (simp add: source_bytes_def)
  have "unat m \<le> unat (capacity hdr2)" using o m by (simp add: word_le_nat_alt)
  then have "unat m * unat es \<le> unat (capacity hdr2) * unat es" by (rule mult_le_mono1)
  then have src: "unat m * unat es \<le> length (source_bytes h (Elems other))"
    using o sbytes es2 by simp
  have ob: "other \<noteq> vector_base vec" using two False o by simp
  have onb: "other \<noteq> nb" using ok ob o by (auto simp: alloc_ok_def)
  with ob have apart: "\<forall>sb. Elems other = Elems sb \<longrightarrow> sb \<noteq> vector_base vec \<and> sb \<noteq> nb"
    by simp
  have ne': "vector_base vec = NULL \<longrightarrow> m \<noteq> 0" using ne False by simp
  from insert_at_end [OF va la ca ea ne' ok cap sz src apart, of junk]
  obtain vec' h' where ins: "vector_insert vec n (Elems other) m nb junk h = Inr (vec', h')"
    and r: "vector_len vec' h' = Inr (n + m, h')" "unat (n + m) = unat n + unat m"
      "vector_element_size vec' h' = Inr (es, h')"
      "contents h' vec' = contents h vec @ elements_of (unat es) (unat m) (elems b2)"
      "\<forall>p. p \<noteq> vector_base vec \<longrightarrow> p \<noteq> nb \<longrightarrow> h' p = h p"
      "unat nb + (24 + (unat c + unat c div 2 * 3 + unat m) * unat es) < 2 ^ 64
         \<longrightarrow> valid_vector h' vec'"
    unfolding sbytes by blast
  from r(5) ob onb have keep: "h' other = h other" by simp
  then have "contents h' other = contents h other" using o by (simp add: contents_def)
  moreover have "vector_extend vec other nb junk h = Inr (vec', h')"
    using ea eb o False gl la ins
    by (simp add: vector_extend_def vector_push_def bindp_def retp_def abortp_def Let_def)
  ultimately show ?thesis using r keep co o by simp
qed

text \<open>
  Claim C6. For every two vectors of equal element size, \<^verbatim>\<open>vector_extend(&a, b)\<close> should
  append the contents of \<open>b\<close> to \<open>a\<close> and leave \<open>b\<close> as it is. The code pushes whenever
  \<open>b\<close> is heap-backed, also when \<open>b\<close> is empty; the push of zero elements reserves
  nothing, and on a tagged-empty \<open>a\<close> the insertion then finds a null header and aborts.
  Here \<open>a\<close> is the tagged-empty handle for four-byte elements and \<open>b\<close> an empty
  heap-backed vector of capacity 2 with four-byte elements; both are valid and have
  the same element size.
\<close>

theorem vector_extend_empty_into_tagged_aborts:
  "vector_extend 9 16 32 (\<lambda>i. 0) (heap_with 2 0 4 [0, 0, 0, 0, 0, 0, 0, 0]) = Inl Abort
    \<and> valid_vector (heap_with 2 0 4 [0, 0, 0, 0, 0, 0, 0, 0]) 9
    \<and> valid_vector (heap_with 2 0 4 [0, 0, 0, 0, 0, 0, 0, 0]) 16
    \<and> vector_element_size 9 (heap_with 2 0 4 [0, 0, 0, 0, 0, 0, 0, 0])
        = vector_element_size 16 (heap_with 2 0 4 [0, 0, 0, 0, 0, 0, 0, 0])"
  by (simp add: vector_extend_def vector_push_def vector_insert_def vector_reserve_def prims
      heap_with_def valid_vector_def)

text \<open>
  On every other input the extension does what it should. For two valid vectors \<open>a\<close>
  and \<open>b\<close> with distinct storage, \<^verbatim>\<open>vector_extend(&a, b)\<close> aborts if the element sizes
  differ. If they are equal, and \<open>a\<close> is heap-backed or \<open>b\<close> is tagged-empty or \<open>b\<close>
  holds an element, then, when the allocation succeeds and the new capacity and block
  size fit \<^verbatim>\<open>size_t\<close>, the length of \<open>a\<close> becomes its prior length plus the length of
  \<open>b\<close>, \<open>a\<close> holds its prior contents followed by the contents of \<open>b\<close> in order, and the
  block of \<open>b\<close> (length, capacity, element size and contents) is unchanged.
\<close>

theorem vector_extend_appends:
  assumes va: "valid_vector h vec" and vb: "valid_vector h other"
    and la: "vector_len vec h = Inr (n, h)" and ca: "vector_capacity vec h = Inr (c, h)"
    and ea: "vector_element_size vec h = Inr (es, h)"
    and lb: "vector_len other h = Inr (m, h)"
    and eb: "vector_element_size other h = Inr (es', h)"
  shows "(es' \<noteq> es \<longrightarrow> vector_extend vec other nb junk h = Inl Abort)
    \<and> (es' = es \<longrightarrow>
        (vector_base other = NULL \<or> vector_base other \<noteq> vector_base vec) \<longrightarrow>
        (vector_base vec = NULL \<longrightarrow> vector_base other = NULL \<or> m \<noteq> 0) \<longrightarrow>
        alloc_ok h (vector_base vec) nb \<longrightarrow>
        unat c + unat c div 2 * 3 + unat m < 2 ^ 64 \<longrightarrow>
        24 + (unat c + unat c div 2 * 3 + unat m) * unat es < 2 ^ 64 \<longrightarrow>
        (case vector_extend vec other nb junk h of Inl e \<Rightarrow> False
         | Inr (vec', h') \<Rightarrow>
             vector_len vec' h' = Inr (n + m, h')
           \<and> unat (n + m) = unat n + unat m
           \<and> contents h' vec' = contents h vec @ contents h other
           \<and> h' (vector_base other) = h (vector_base other)
           \<and> contents h' other = contents h other))"
proof (intro conjI impI)
  assume "es' \<noteq> es"
  with ea eb show "vector_extend vec other nb junk h = Inl Abort"
    by (simp add: vector_extend_def bindp_def abortp_def)
next
  assume same: "es' = es"
    and two: "vector_base other = NULL \<or> vector_base other \<noteq> vector_base vec"
    and ne: "vector_base vec = NULL \<longrightarrow> vector_base other = NULL \<or> m \<noteq> 0"
    and ok: "alloc_ok h (vector_base vec) nb"
    and cap: "unat c + unat c div 2 * 3 + unat m < 2 ^ 64"
    and sz: "24 + (unat c + unat c div 2 * 3 + unat m) * unat es < 2 ^ 64"
  from eb same have eb': "vector_element_size other h = Inr (es, h)" by simp
  from extend_result [OF va vb la ca ea lb eb' two ne ok cap sz, of junk]
  obtain vec' h' where "vector_extend vec other nb junk h = Inr (vec', h')"
    "vector_len vec' h' = Inr (n + m, h')" "unat (n + m) = unat n + unat m"
    "contents h' vec' = contents h vec @ contents h other"
    "h' (vector_base other) = h (vector_base other)"
    "contents h' other = contents h other"
    by blast
  then show "case vector_extend vec other nb junk h of Inl e \<Rightarrow> False
         | Inr (vec', h') \<Rightarrow>
             vector_len vec' h' = Inr (n + m, h')
           \<and> unat (n + m) = unat n + unat m
           \<and> contents h' vec' = contents h vec @ contents h other
           \<and> h' (vector_base other) = h (vector_base other)
           \<and> contents h' other = contents h other"
    by simp
qed

theorem vector_extend_appends_witness:
  "valid_vector ((heap_with 3 2 1 [1, 2, 0])(48 \<mapsto> block_of 2 2 1 [3, 4])) 16
   \<and> valid_vector ((heap_with 3 2 1 [1, 2, 0])(48 \<mapsto> block_of 2 2 1 [3, 4])) 48
   \<and> vector_len 16 ((heap_with 3 2 1 [1, 2, 0])(48 \<mapsto> block_of 2 2 1 [3, 4]))
       = Inr (2, (heap_with 3 2 1 [1, 2, 0])(48 \<mapsto> block_of 2 2 1 [3, 4]))
   \<and> vector_capacity 16 ((heap_with 3 2 1 [1, 2, 0])(48 \<mapsto> block_of 2 2 1 [3, 4]))
       = Inr (3, (heap_with 3 2 1 [1, 2, 0])(48 \<mapsto> block_of 2 2 1 [3, 4]))
   \<and> vector_element_size 16 ((heap_with 3 2 1 [1, 2, 0])(48 \<mapsto> block_of 2 2 1 [3, 4]))
       = Inr (1, (heap_with 3 2 1 [1, 2, 0])(48 \<mapsto> block_of 2 2 1 [3, 4]))
   \<and> vector_len 48 ((heap_with 3 2 1 [1, 2, 0])(48 \<mapsto> block_of 2 2 1 [3, 4]))
       = Inr (2, (heap_with 3 2 1 [1, 2, 0])(48 \<mapsto> block_of 2 2 1 [3, 4]))
   \<and> vector_element_size 48 ((heap_with 3 2 1 [1, 2, 0])(48 \<mapsto> block_of 2 2 1 [3, 4]))
       = Inr (1, (heap_with 3 2 1 [1, 2, 0])(48 \<mapsto> block_of 2 2 1 [3, 4]))
   \<and> vector_base 48 \<noteq> vector_base 16
   \<and> vector_base 16 \<noteq> NULL
   \<and> alloc_ok ((heap_with 3 2 1 [1, 2, 0])(48 \<mapsto> block_of 2 2 1 [3, 4])) (vector_base 16) 80
   \<and> unat (3 :: size_t) + unat (3 :: size_t) div 2 * 3 + unat (2 :: size_t) < 2 ^ 64
   \<and> 24 + (unat (3 :: size_t) + unat (3 :: size_t) div 2 * 3 + unat (2 :: size_t))
         * unat (1 :: size_t) < 2 ^ 64
   \<and> (case vector_extend 16 48 80 (\<lambda>i. 0)
           ((heap_with 3 2 1 [1, 2, 0])(48 \<mapsto> block_of 2 2 1 [3, 4])) of
        Inl e \<Rightarrow> False
      | Inr (vec', h') \<Rightarrow>
          vector_len vec' h' = Inr (4, h')
        \<and> contents h' vec' = [[1], [2], [3], [4]]
        \<and> h' 48 = Some (block_of 2 2 1 [3, 4])
        \<and> contents h' 48 = [[3], [4]])
   \<and> vector_element_size 48 ((heap_with 3 2 1 [1, 2, 0])(48 \<mapsto> block_of 2 2 2 [3, 4, 5, 6]))
       = Inr (2, (heap_with 3 2 1 [1, 2, 0])(48 \<mapsto> block_of 2 2 2 [3, 4, 5, 6]))
   \<and> vector_extend 16 48 80 (\<lambda>i. 0)
           ((heap_with 3 2 1 [1, 2, 0])(48 \<mapsto> block_of 2 2 2 [3, 4, 5, 6])) = Inl Abort"
proof -
  let ?H = "(heap_with 3 2 1 [1, 2, 0])(48 \<mapsto> block_of 2 2 1 [3, 4])"
  let ?G = "(heap_with 3 2 1 [1, 2, 0])(48 \<mapsto> block_of 2 2 2 [3, 4, 5, 6])"
  have va: "valid_vector ?H 16" and vb: "valid_vector ?H 48"
    by (simp_all add: valid_vector_def heap_with_def block_of_def NULL_def sizeof_header_def)
  have la: "vector_len 16 ?H = Inr (2, ?H)" and ca: "vector_capacity 16 ?H = Inr (3, ?H)"
    and ea: "vector_element_size 16 ?H = Inr (1, ?H)"
    and lb: "vector_len 48 ?H = Inr (2, ?H)" and eb: "vector_element_size 48 ?H = Inr (1, ?H)"
    by (simp_all add: prims heap_with_def block_of_def)
  have two: "vector_base 48 \<noteq> vector_base 16" and ne: "vector_base 16 \<noteq> NULL"
    by (simp_all add: vector_base_def NULL_def)
  have ok: "alloc_ok ?H (vector_base 16) 80"
    by (simp add: alloc_ok_def heap_with_def vector_base_def NULL_def)
  have s: "contents ?H 16 = [[1], [2]]" "contents ?H 48 = [[3], [4]]"
    "?H (vector_base 48) = Some (block_of 2 2 1 [3, 4])" "vector_base 48 = 48"
    by (simp_all add: contents_def heap_with_def block_of_def prims elements_of_numeral)
  from vector_extend_appends [OF va vb la ca ea lb eb, of 80 "\<lambda>i. 0"] two ne ok s
  have g: "case vector_extend 16 48 80 (\<lambda>i. 0) ?H of
        Inl e \<Rightarrow> False
      | Inr (vec', h') \<Rightarrow>
          vector_len vec' h' = Inr (4, h')
        \<and> contents h' vec' = [[1], [2], [3], [4]]
        \<and> h' 48 = Some (block_of 2 2 1 [3, 4])
        \<and> contents h' 48 = [[3], [4]]"
    by (auto split: sum.splits)
  have va': "valid_vector ?G 16" and vb': "valid_vector ?G 48"
    by (simp_all add: valid_vector_def heap_with_def block_of_def NULL_def sizeof_header_def)
  have la': "vector_len 16 ?G = Inr (2, ?G)" and ca': "vector_capacity 16 ?G = Inr (3, ?G)"
    and ea': "vector_element_size 16 ?G = Inr (1, ?G)"
    and lb': "vector_len 48 ?G = Inr (2, ?G)" and eb': "vector_element_size 48 ?G = Inr (2, ?G)"
    by (simp_all add: prims heap_with_def block_of_def)
  from vector_extend_appends [OF va' vb' la' ca' ea' lb' eb', of 80 "\<lambda>i. 0"]
  have a: "vector_extend 16 48 80 (\<lambda>i. 0) ?G = Inl Abort" by simp
  from va vb la ca ea lb eb two ne ok g eb' a show ?thesis by simp
qed

subsection \<open>Removal inside the range\<close>





lemma vector_remove_in_range_example:
  "valid_vector (heap_with 10 9 1 [1, 2, 3, 4, 5, 6, 7, 8, 9, 0]) 16
   \<and> contents (heap_with 10 9 1 [1, 2, 3, 4, 5, 6, 7, 8, 9, 0]) 16
       = [[1], [2], [3], [4], [5], [6], [7], [8], [9]]
   \<and> (case vector_remove 16 4 3 (heap_with 10 9 1 [1, 2, 3, 4, 5, 6, 7, 8, 9, 0]) of
        Inl e \<Rightarrow> False
      | Inr (u, h') \<Rightarrow> vector_len 16 h' = Inr (6, h')
          \<and> contents h' 16 = [[1], [2], [3], [4], [8], [9]])"
  by (simp add: vector_remove_def prims heap_with_def contents_def valid_vector_def
      elements_of_numeral elements_of_1)

subsection \<open>The invariants of a handle\<close>












end
